theory Spec2Isabelle
  imports Main "HOL-Library.Word"
begin

section \<open>Python text, bytes and exceptions\<close>

text \<open>
  A Python \<open>str\<close> is a sequence of Unicode code points, so it is modelled as a list of
  natural numbers (the code points), not as a list of 8-bit characters. A \<open>bytes\<close>
  object is a list of 8-bit words. ASCII literals of the source are written with
  \<open>ascii\<close>; the Chinese message literals are written as their code points.
\<close>

type_synonym codepoint = nat
type_synonym ustr = "codepoint list"
type_synonym byte = "8 word"

definition ascii :: "string \<Rightarrow> ustr" where
  "ascii s = map of_char s"

text \<open>The exceptions that the modelled functions can meet.\<close>

datatype py_error =
    UnicodeDecodeError
  | UnicodeEncodeError
  | ValueError
  | FileExistsError
  | FileNotFoundError
  | PermissionError
  | OSError
  | HTTPException nat ustr

subsection \<open>The codecs used by the source\<close>

text \<open>
  \<open>bytes.decode('utf-8')\<close> is strict: it refuses stray continuation bytes, truncated
  sequences, overlong forms, encoded surrogates and values above U+10FFFF.
\<close>

definition is_cont :: "nat \<Rightarrow> bool" where
  "is_cont b = (128 \<le> b \<and> b < 192)"

definition is_surrogate :: "codepoint \<Rightarrow> bool" where
  "is_surrogate c = (55296 \<le> c \<and> c < 57344)"

fun utf8_decode_nat :: "nat list \<Rightarrow> ustr option" where
  "utf8_decode_nat [] = Some []"
| "utf8_decode_nat (b0 # bs) =
     (if b0 < 128 then map_option ((#) b0) (utf8_decode_nat bs)
      else if 194 \<le> b0 \<and> b0 < 224 then
        (case bs of
           b1 # r \<Rightarrow>
             if is_cont b1
             then map_option ((#) ((b0 - 192) * 64 + (b1 - 128))) (utf8_decode_nat r)
             else None
         | _ \<Rightarrow> None)
      else if 224 \<le> b0 \<and> b0 < 240 then
        (case bs of
           b1 # b2 # r \<Rightarrow>
             (let c = (b0 - 224) * 4096 + (b1 - 128) * 64 + (b2 - 128)
              in if is_cont b1 \<and> is_cont b2 \<and> 2048 \<le> c \<and> \<not> is_surrogate c
                 then map_option ((#) c) (utf8_decode_nat r)
                 else None)
         | _ \<Rightarrow> None)
      else if 240 \<le> b0 \<and> b0 < 245 then
        (case bs of
           b1 # b2 # b3 # r \<Rightarrow>
             (let c = (b0 - 240) * 262144 + (b1 - 128) * 4096 + (b2 - 128) * 64 + (b3 - 128)
              in if is_cont b1 \<and> is_cont b2 \<and> is_cont b3 \<and> 65536 \<le> c \<and> c < 1114112
                 then map_option ((#) c) (utf8_decode_nat r)
                 else None)
         | _ \<Rightarrow> None)
      else None)"

definition decode_utf8 :: "byte list \<Rightarrow> py_error + ustr" where
  "decode_utf8 bs =
     (case utf8_decode_nat (map unat bs) of
        None \<Rightarrow> Inl UnicodeDecodeError
      | Some s \<Rightarrow> Inr s)"

text \<open>\<open>bytes.decode('latin-1')\<close> maps every byte to the code point of the same value.\<close>

definition decode_latin1 :: "byte list \<Rightarrow> py_error + ustr" where
  "decode_latin1 bs = Inr (map unat bs)"

text \<open>
  \<open>str.encode('utf-8')\<close> raises \<open>UnicodeEncodeError\<close> on a surrogate code point
  (U+D800 to U+DFFF), which a Python \<open>str\<close> may hold.
\<close>

definition utf8_encode_cp :: "codepoint \<Rightarrow> nat list option" where
  "utf8_encode_cp c =
     (if c < 128 then Some [c]
      else if c < 2048 then Some [192 + c div 64, 128 + c mod 64]
      else if c < 65536 then
        (if is_surrogate c then None
         else Some [224 + c div 4096, 128 + c div 64 mod 64, 128 + c mod 64])
      else if c < 1114112 then
        Some [240 + c div 262144, 128 + c div 4096 mod 64, 128 + c div 64 mod 64,
              128 + c mod 64]
      else None)"

fun utf8_encode_nat :: "ustr \<Rightarrow> nat list option" where
  "utf8_encode_nat [] = Some []"
| "utf8_encode_nat (c # cs) =
     (case utf8_encode_cp c of
        None \<Rightarrow> None
      | Some bs \<Rightarrow> map_option ((@) bs) (utf8_encode_nat cs))"

definition encode_utf8 :: "ustr \<Rightarrow> py_error + byte list" where
  "encode_utf8 s =
     (case utf8_encode_nat s of
        None \<Rightarrow> Inl UnicodeEncodeError
      | Some bs \<Rightarrow> Inr (map of_nat bs))"

section \<open>Filename normalisation\<close>

text \<open>
  \<open>re.sub(r'[\\/*?:"<>|]', '_', filename)\<close>: the character class holds the nine
  characters backslash, slash, asterisk, question mark, colon, double quote, less-than,
  greater-than and vertical bar.
\<close>

definition unsafe_chars :: "codepoint set" where
  "unsafe_chars = {92, 47, 42, 63, 58, 34, 60, 62, 124}"

definition re_sub_unsafe :: "ustr \<Rightarrow> ustr" where
  "re_sub_unsafe s = map (\<lambda>c. if c \<in> unsafe_chars then 95 else c) s"

text \<open>
  The argument of \<open>normalize_filename\<close> is a \<open>str\<close> or a \<open>bytes\<close> object.
  \<open>unicodedata.normalize('NFC', _)\<close> is a table of the Unicode standard, not code of
  this module: it is the parameter \<open>nfc\<close>.
\<close>

datatype filename_arg = Str ustr | Bytes "byte list"

definition normalize_filename :: "(ustr \<Rightarrow> ustr) \<Rightarrow> filename_arg \<Rightarrow> ustr" where
  "normalize_filename nfc filename =
     (let filename1 =
        (case filename of
           Bytes b \<Rightarrow>
             (case decode_utf8 b of
                Inr s \<Rightarrow> s
              | Inl _ \<Rightarrow>
                  (case decode_latin1 b of
                     Inr s \<Rightarrow> s
                   | Inl _ \<Rightarrow> ascii ''unknown_file''))
         | Str s \<Rightarrow> s)
      in re_sub_unsafe (nfc filename1))"

text \<open>
  On text that is already in NFC, ASCII text in particular, NFC normalisation returns
  its argument. \<open>nfc_fixed\<close> is that behaviour; the concrete examples use it.
\<close>

definition nfc_fixed :: "ustr \<Rightarrow> ustr" where
  "nfc_fixed s = s"

text \<open>
  A part of NFC that does compose, for an example with an unsafe character in it: on
  ASCII text with the combining long solidus overlay (U+0338), NFC joins a \<open><\<close>,
  \<open>=\<close> or \<open>>\<close> and an overlay after it into the one code point U+226E, U+2260 or
  U+226F. \<open>composed\<close> says that no such pair is left.
\<close>

fun nfc_overlay :: "ustr \<Rightarrow> ustr" where
  "nfc_overlay [] = []"
| "nfc_overlay [c] = [c]"
| "nfc_overlay (c # d # cs) =
     (if d = 824 \<and> c = 60 then 8814 # nfc_overlay cs
      else if d = 824 \<and> c = 61 then 8800 # nfc_overlay cs
      else if d = 824 \<and> c = 62 then 8815 # nfc_overlay cs
      else c # nfc_overlay (d # cs))"

fun composed :: "ustr \<Rightarrow> bool" where
  "composed [] = True"
| "composed [c] = True"
| "composed (c # d # cs) = (\<not> (d = 824 \<and> (c = 60 \<or> c = 61 \<or> c = 62)) \<and> composed (d # cs))"

section \<open>Extensions\<close>

text \<open>
  \<open>str.rfind\<close> returns the highest index of the character, or \<open>-1\<close>.
  \<open>os.path.splitext\<close> (POSIX flavour) splits at the last dot when that dot comes
  after the last slash and the name part before it is not made of dots only.
\<close>

fun rfind :: "codepoint \<Rightarrow> ustr \<Rightarrow> int" where
  "rfind c [] = - 1"
| "rfind c (x # xs) =
     (let r = rfind c xs
      in if 0 \<le> r then r + 1 else if x = c then 0 else - 1)"

definition splitext :: "ustr \<Rightarrow> ustr \<times> ustr" where
  "splitext p =
     (let sepIndex = rfind 47 p;
          dotIndex = rfind 46 p
      in if sepIndex < dotIndex \<and>
            list_ex (\<lambda>c. c \<noteq> 46)
              (take (nat dotIndex - nat (sepIndex + 1)) (drop (nat (sepIndex + 1)) p))
         then (take (nat dotIndex) p, drop (nat dotIndex) p)
         else (p, []))"

text \<open>\<open>os.path.basename\<close>: what follows the last slash.\<close>

definition basename :: "ustr \<Rightarrow> ustr" where
  "basename p = drop (nat (rfind 47 p + 1)) p"

text \<open>
  The extension in the words of the specification, which are not those of
  \<open>os.path.splitext\<close>: the text after the final dot of the name, taken with that dot,
  as the allow-list writes its entries, and empty for a name without a dot.
  \<open>spec_stem\<close> is the part of the name before it.
\<close>

definition spec_extension :: "ustr \<Rightarrow> ustr" where
  "spec_extension p = (if rfind 46 p < 0 then [] else drop (nat (rfind 46 p)) p)"

definition spec_stem :: "ustr \<Rightarrow> ustr" where
  "spec_stem p = take (length p - length (spec_extension p)) p"

text \<open>
  \<open>str.lower()\<close>: an ASCII capital letter becomes its small letter and every other
  ASCII character stays. What a non-ASCII code point becomes is a table of the Unicode
  standard: the parameter \<open>lc\<close>. A code point may become several, and what it becomes
  may depend on the text before and after it (the Greek capital sigma), so \<open>lc\<close> takes
  the text before the code point, the code point, and the text after it.
  \<open>lower_from lc pre s post\<close> lower-cases the part \<open>s\<close> of the text \<open>pre @ s @ post\<close>.
\<close>

definition ascii_lower :: "codepoint \<Rightarrow> codepoint" where
  "ascii_lower c = (if 65 \<le> c \<and> c \<le> 90 then c + 32 else c)"

fun lower_from :: "(ustr \<Rightarrow> codepoint \<Rightarrow> ustr \<Rightarrow> ustr) \<Rightarrow> ustr \<Rightarrow> ustr \<Rightarrow> ustr \<Rightarrow> ustr" where
  "lower_from lc pre [] post = []"
| "lower_from lc pre (c # cs) post =
     (if c < 128 then [ascii_lower c] else lc pre c (cs @ post))
       @ lower_from lc (pre @ [c]) cs post"

definition str_lower :: "(ustr \<Rightarrow> codepoint \<Rightarrow> ustr \<Rightarrow> ustr) \<Rightarrow> ustr \<Rightarrow> ustr" where
  "str_lower lc s = lower_from lc [] s []"

text \<open>
  What the properties below need of the Unicode table: a non-ASCII code point does not
  vanish when lower-cased, and does not turn into a dot or a slash. \<open>lc_fixed\<close>, which
  leaves every non-ASCII code point as it is, is used in the concrete examples.
\<close>

definition lower_table_ok :: "(ustr \<Rightarrow> codepoint \<Rightarrow> ustr \<Rightarrow> ustr) \<Rightarrow> bool" where
  "lower_table_ok lc =
     (\<forall>pre c post. 128 \<le> c \<longrightarrow>
        lc pre c post \<noteq> [] \<and> 46 \<notin> set (lc pre c post) \<and> 47 \<notin> set (lc pre c post))"

definition lc_fixed :: "ustr \<Rightarrow> codepoint \<Rightarrow> ustr \<Rightarrow> ustr" where
  "lc_fixed pre c post = [c]"

definition ALLOWED_EXTENSIONS :: "ustr list" where
  "ALLOWED_EXTENSIONS =
     [ascii ''.pdf'', ascii ''.doc'', ascii ''.docx'', ascii ''.txt'', ascii ''.rtf'',
      ascii ''.md'']"

section \<open>Validation of an upload\<close>

text \<open>
  The upload object: its \<open>filename\<close> may be absent (\<open>None\<close>), and \<open>fileobj\<close> (the
  source's \<open>file.file\<close>) is the underlying stream. \<open>validate_upload_file\<close> assigns to
  \<open>file.filename\<close>, so the model returns the upload object next to the result pair.
\<close>

record stream =
  content :: "byte list"
  position :: nat
  closed :: bool

record upload_file =
  filename :: "ustr option"
  content_type :: "ustr option"
  fileobj :: stream

fun join_str :: "ustr \<Rightarrow> ustr list \<Rightarrow> ustr" where
  "join_str sep [] = []"
| "join_str sep [x] = x"
| "join_str sep (x # y # ys) = x @ sep @ join_str sep (y # ys)"

text \<open>
  The two failure messages. The second lists the allowed extensions; the source joins a
  \<open>set\<close>, whose order of iteration Python leaves open, and the list is taken here in
  the order of the source's literal.
\<close>

definition msg_empty_name :: ustr where
  "msg_empty_name = [25991, 20214, 21517, 19981, 33021, 20026, 31354]"

definition msg_bad_type :: ustr where
  "msg_bad_type =
     [19981, 25903, 25345, 30340, 25991, 20214, 31867, 22411, 12290, 20801, 35768, 30340,
      31867, 22411, 58, 32] @ join_str (ascii '', '') ALLOWED_EXTENSIONS"

definition validate_upload_file ::
  "(ustr \<Rightarrow> codepoint \<Rightarrow> ustr \<Rightarrow> ustr) \<Rightarrow> (ustr \<Rightarrow> ustr) \<Rightarrow> upload_file
     \<Rightarrow> upload_file \<times> bool \<times> ustr" where
  "validate_upload_file lc nfc f =
     (case filename f of
        None \<Rightarrow> (f, False, msg_empty_name)
      | Some name \<Rightarrow>
          if name = [] then (f, False, msg_empty_name)
          else
            (let f' = f\<lparr>filename := Some (normalize_filename nfc (Str name))\<rparr>;
                 ext = snd (splitext (str_lower lc (the (filename f'))))
             in if ext \<notin> set ALLOWED_EXTENSIONS then (f', False, msg_bad_type)
                else (f', True, [])))"

text \<open>An upload object with the given filename, for the concrete examples.\<close>

definition upload_named :: "ustr \<Rightarrow> upload_file" where
  "upload_named name =
     \<lparr>filename = Some name, content_type = None,
      fileobj = \<lparr>content = [], position = 0, closed = False\<rparr>\<rparr>"

section \<open>A filename for HTTP headers\<close>

text \<open>
  \<open>urllib.parse.quote\<close> on a \<open>bytes\<close> object, with its default \<open>safe='/'\<close>: a byte
  that is an ASCII letter, a digit, one of \<open>_ . - ~\<close> or the slash is kept as that
  character; every other byte becomes a percent sign and two capital hexadecimal digits.
\<close>

definition always_safe :: "nat \<Rightarrow> bool" where
  "always_safe b =
     ((65 \<le> b \<and> b \<le> 90) \<or> (97 \<le> b \<and> b \<le> 122) \<or> (48 \<le> b \<and> b \<le> 57) \<or>
      b = 95 \<or> b = 46 \<or> b = 45 \<or> b = 126)"

definition hexdigit :: "nat \<Rightarrow> codepoint" where
  "hexdigit n = (if n < 10 then 48 + n else 55 + n)"

definition quote_byte :: "byte \<Rightarrow> ustr" where
  "quote_byte b =
     (if always_safe (unat b) \<or> unat b = 47 then [unat b]
      else [37, hexdigit (unat b div 16), hexdigit (unat b mod 16)])"

definition quote :: "byte list \<Rightarrow> ustr" where
  "quote bs = concat (map quote_byte bs)"

definition header_prefix :: ustr where
  "header_prefix = ascii ''filename*=UTF-8'' @ [39, 39]"

definition get_safe_filename_for_headers ::
  "(ustr \<Rightarrow> ustr) \<Rightarrow> filename_arg \<Rightarrow> py_error + ustr" where
  "get_safe_filename_for_headers nfc fname =
     (let filename1 = normalize_filename nfc fname
      in case encode_utf8 filename1 of
           Inl e \<Rightarrow> Inl e
         | Inr b \<Rightarrow> Inr (header_prefix @ quote b))"

text \<open>
  Percent-decoding, as the specification means it (RFC 3986): a percent sign and two
  hexadecimal digits stand for a byte, any other ASCII character for itself; the bytes
  are then read as UTF-8. This is the decoder of the reader of the header, not code of
  the module.
\<close>

definition hexval :: "codepoint \<Rightarrow> nat option" where
  "hexval c =
     (if 48 \<le> c \<and> c \<le> 57 then Some (c - 48)
      else if 65 \<le> c \<and> c \<le> 70 then Some (c - 55)
      else if 97 \<le> c \<and> c \<le> 102 then Some (c - 87)
      else None)"

fun percent_decode :: "ustr \<Rightarrow> byte list option" where
  "percent_decode [] = Some []"
| "percent_decode (c # cs) =
     (if c = 37 then
        (case cs of
           h1 # h2 # r \<Rightarrow>
             (case (hexval h1, hexval h2) of
                (Some a, Some b) \<Rightarrow> map_option ((#) (of_nat (16 * a + b))) (percent_decode r)
              | _ \<Rightarrow> None)
         | _ \<Rightarrow> None)
      else if c < 128 then map_option ((#) (of_nat c)) (percent_decode cs)
      else None)"

definition percent_decode_utf8 :: "ustr \<Rightarrow> ustr option" where
  "percent_decode_utf8 enc =
     (case percent_decode enc of
        None \<Rightarrow> None
      | Some bs \<Rightarrow> (case decode_utf8 bs of Inl _ \<Rightarrow> None | Inr s \<Rightarrow> Some s))"

text \<open>
  The strings that \<open>str.encode('utf-8')\<close> accepts: no surrogate code point (and, as for
  every Python string, no code point above U+10FFFF).
\<close>

definition encodable :: "ustr \<Rightarrow> bool" where
  "encodable s = (\<forall>c \<in> set s. c < 1114112 \<and> \<not> is_surrogate c)"

section \<open>The operating system\<close>

text \<open>
  The module reaches the file system through \<open>os\<close>, \<open>open\<close> and \<open>shutil\<close>. These
  calls are not code of the module: they are the fields of the interface \<open>os_api\<close>,
  over any type \<open>'fs\<close> of file-system states, and the functions below take the
  interface and the current state and return the new state. A call that can raise
  returns the exception next to the new state.
\<close>

record stat_result =
  st_size :: nat
  st_ctime :: int
  st_mtime :: int
  st_atime :: int

record 'fs os_api =
  os_makedirs :: "'fs \<Rightarrow> ustr \<Rightarrow> 'fs \<times> py_error option"
  os_access_w :: "'fs \<Rightarrow> ustr \<Rightarrow> bool"
  os_path_exists :: "'fs \<Rightarrow> ustr \<Rightarrow> bool"
  os_open_wb :: "'fs \<Rightarrow> ustr \<Rightarrow> 'fs \<times> py_error option"
  os_write :: "'fs \<Rightarrow> ustr \<Rightarrow> byte list \<Rightarrow> 'fs \<times> nat \<times> py_error option"
  os_remove :: "'fs \<Rightarrow> ustr \<Rightarrow> 'fs \<times> py_error option"
  os_stat :: "'fs \<Rightarrow> ustr \<Rightarrow> py_error + stat_result"

text \<open>
  \<open>os.path.join\<close> of two paths and \<open>os.path.dirname\<close> (POSIX flavour), and the
  decimal text of a counter as an f-string prints it.
\<close>

definition path_join :: "ustr \<Rightarrow> ustr \<Rightarrow> ustr" where
  "path_join a b =
     (if take 1 b = [47] then b
      else if a = [] \<or> last a = 47 then a @ b
      else a @ [47] @ b)"

definition rstrip_sep :: "ustr \<Rightarrow> ustr" where
  "rstrip_sep p = rev (dropWhile (\<lambda>c. c = 47) (rev p))"

definition dirname :: "ustr \<Rightarrow> ustr" where
  "dirname p =
     (let head = take (nat (rfind 47 p + 1)) p
      in if head \<noteq> [] \<and> head \<noteq> replicate (length head) 47 then rstrip_sep head
         else head)"

fun str_nat :: "nat \<Rightarrow> ustr" where
  "str_nat n = (if n < 10 then [48 + n] else str_nat (n div 10) @ [48 + n mod 10])"

declare str_nat.simps [simp del]


definition UPLOAD_ROOT :: ustr where
  "UPLOAD_ROOT = ascii ''uploads''"

section \<open>Choosing the destination path\<close>

text \<open>
  The \<open>while\<close> loop of \<open>generate_file_path\<close>, with its three variables \<open>counter\<close>,
  \<open>full_path\<close> and \<open>relative_path\<close>. Nothing in the source bounds the loop, so it is
  a partial function: \<open>None\<close> stands for a loop that never ends.
\<close>

partial_function (option) suffix_loop ::
  "(ustr \<Rightarrow> bool) \<Rightarrow> ustr \<Rightarrow> ustr \<Rightarrow> ustr \<Rightarrow> ustr \<Rightarrow> nat \<Rightarrow> ustr \<Rightarrow> ustr
     \<Rightarrow> (ustr \<times> ustr \<times> nat) option" where
  "suffix_loop path_exists group_path group_dir base_name ext counter full_path relative_path =
     (if path_exists full_path then
        (let new_filename = base_name @ [95] @ str_nat counter @ ext
         in suffix_loop path_exists group_path group_dir base_name ext (counter + 1)
              (path_join group_path new_filename) (path_join group_dir new_filename))
      else Some (full_path, relative_path, counter))"

declare suffix_loop.simps [code]

text \<open>The detail text of the HTTP error: the storage directory has no write permission.\<close>

definition msg_not_writable :: ustr where
  "msg_not_writable = [23384, 20648, 30446, 24405, 26080, 20889, 20837, 26435, 38480]"

text \<open>
  \<open>generate_file_path\<close> returns the new file-system state and either the exception it
  raises or the pair of the full and the relative path; \<open>None\<close> when its loop does not
  end.
\<close>

definition generate_file_path ::
  "'fs os_api \<Rightarrow> (ustr \<Rightarrow> ustr) \<Rightarrow> 'fs \<Rightarrow> ustr \<Rightarrow> filename_arg
     \<Rightarrow> ('fs \<times> (py_error + ustr \<times> ustr)) option" where
  "generate_file_path os nfc fs group_dir fname =
     (let filename1 = normalize_filename nfc fname;
          group_path = path_join UPLOAD_ROOT group_dir
      in case os_makedirs os fs group_path of
           (fs1, Some e) \<Rightarrow> Some (fs1, Inl e)
         | (fs1, None) \<Rightarrow>
             if \<not> os_access_w os fs1 group_path
             then Some (fs1, Inl (HTTPException 500 msg_not_writable))
             else
               (let full_path = path_join group_path filename1;
                    relative_path = path_join group_dir filename1;
                    (base_name, ext) = splitext filename1
                in map_option (\<lambda>(full_path', relative_path', counter').
                                  (fs1, Inr (full_path', relative_path')))
                     (suffix_loop (os_path_exists os fs1) group_path group_dir base_name ext 1
                        full_path relative_path)))"


text \<open>
  What the loop of \<open>generate_file_path\<close> keeps true of its two paths: both are made
  from one and the same name, which holds no slash.
\<close>

definition consistent_pair :: "ustr \<Rightarrow> ustr \<Rightarrow> ustr \<Rightarrow> ustr \<Rightarrow> bool" where
  "consistent_pair group_path group_dir full_path relative_path =
     (\<exists>name. 47 \<notin> set name \<and> full_path = path_join group_path name \<and>
             relative_path = path_join group_dir name)"

section \<open>Saving, deleting and inspecting a file\<close>

text \<open>
  The stream of an upload: \<open>read\<close> and \<open>seek\<close> on a closed file object raise
  \<open>ValueError\<close>. \<open>shutil.copyfileobj\<close> reads the stream from its position and writes
  what it reads; the write may fail part-way, after \<open>n\<close> bytes were taken from the
  stream.
\<close>

definition stream_seek :: "stream \<Rightarrow> nat \<Rightarrow> py_error + stream" where
  "stream_seek s n = (if closed s then Inl ValueError else Inr (s\<lparr>position := n\<rparr>))"

definition copyfileobj ::
  "'fs os_api \<Rightarrow> 'fs \<Rightarrow> stream \<Rightarrow> ustr \<Rightarrow> 'fs \<times> stream \<times> py_error option" where
  "copyfileobj os fs src dest =
     (if closed src then (fs, src, Some ValueError)
      else
        (case os_write os fs dest (drop (position src) (content src)) of
           (fs', n, err) \<Rightarrow>
             (fs', src\<lparr>position := min (length (content src)) (position src + n)\<rparr>, err)))"

text \<open>
  \<open>save_uploaded_file\<close>: the body of the \<open>try\<close>, the \<open>except Exception\<close> that turns
  every exception of the body into \<open>False\<close>, and the \<open>finally\<close> clause, whose own
  exception replaces the pending result.
\<close>

definition save_body ::
  "'fs os_api \<Rightarrow> 'fs \<Rightarrow> stream \<Rightarrow> ustr \<Rightarrow> 'fs \<times> stream \<times> (py_error + bool)" where
  "save_body os fs src destination =
     (case os_makedirs os fs (dirname destination) of
        (fs1, Some e) \<Rightarrow> (fs1, src, Inl e)
      | (fs1, None) \<Rightarrow>
          (case os_open_wb os fs1 destination of
             (fs2, Some e) \<Rightarrow> (fs2, src, Inl e)
           | (fs2, None) \<Rightarrow>
               (case copyfileobj os fs2 src destination of
                  (fs3, src', Some e) \<Rightarrow> (fs3, src', Inl e)
                | (fs3, src', None) \<Rightarrow> (fs3, src', Inr True))))"

definition save_uploaded_file ::
  "'fs os_api \<Rightarrow> 'fs \<Rightarrow> upload_file \<Rightarrow> ustr \<Rightarrow> 'fs \<times> upload_file \<times> (py_error + bool)" where
  "save_uploaded_file os fs f destination =
     (case save_body os fs (fileobj f) destination of
        (fs', src', r) \<Rightarrow>
          (let r' = (case r of Inl e \<Rightarrow> Inr False | Inr b \<Rightarrow> Inr b)
           in case stream_seek src' 0 of
                Inl e \<Rightarrow> (fs', f\<lparr>fileobj := src'\<rparr>, Inl e)
              | Inr src'' \<Rightarrow> (fs', f\<lparr>fileobj := src''\<rparr>, r')))"

text \<open>\<open>cleanup_file\<close> and \<open>get_file_stats\<close>, each a \<open>try\<close> with \<open>except Exception\<close>.\<close>

definition cleanup_file :: "'fs os_api \<Rightarrow> 'fs \<Rightarrow> ustr \<Rightarrow> 'fs \<times> (py_error + bool)" where
  "cleanup_file os fs file_path =
     (let (fs', r) =
        (if os_path_exists os fs file_path then
           (case os_remove os fs file_path of
              (fs1, Some e) \<Rightarrow> (fs1, Inl e)
            | (fs1, None) \<Rightarrow> (fs1, Inr True))
         else (fs, Inr True))
      in (fs', case r of Inl e \<Rightarrow> Inr False | Inr b \<Rightarrow> Inr b))"

definition get_file_stats :: "'fs os_api \<Rightarrow> 'fs \<Rightarrow> ustr \<Rightarrow> py_error + stat_result option" where
  "get_file_stats os fs file_path =
     (let r =
        (if \<not> os_path_exists os fs file_path then Inr None
         else (case os_stat os fs file_path of
                 Inl e \<Rightarrow> Inl e
               | Inr st \<Rightarrow> Inr (Some st)))
      in case r of Inl e \<Rightarrow> Inr None | Inr v \<Rightarrow> Inr v)"

section \<open>A small file system for the examples\<close>

text \<open>
  A table from path texts to nodes; a directory carries what \<open>os.access(_, W_OK)\<close>
  answers for it. Paths are looked up as texts. It stands for the operating system
  in the concrete examples only; the theorems hold for every interface.
\<close>

datatype node = RegularFile "byte list" | Directory bool

type_synonym table_fs = "(ustr \<times> node) list"

definition table_put :: "ustr \<Rightarrow> node \<Rightarrow> table_fs \<Rightarrow> table_fs" where
  "table_put p n fs = (p, n) # filter (\<lambda>e. fst e \<noteq> p) fs"

definition table_makedirs :: "table_fs \<Rightarrow> ustr \<Rightarrow> table_fs \<times> py_error option" where
  "table_makedirs fs p =
     (case map_of fs p of
        Some (Directory w) \<Rightarrow> (fs, None)
      | Some (RegularFile d) \<Rightarrow> (fs, Some FileExistsError)
      | None \<Rightarrow> if p = [] then (fs, Some FileNotFoundError) else (table_put p (Directory True) fs, None))"

definition table_access_w :: "table_fs \<Rightarrow> ustr \<Rightarrow> bool" where
  "table_access_w fs p =
     (case map_of fs p of
        Some (Directory w) \<Rightarrow> w
      | Some (RegularFile d) \<Rightarrow> True
      | None \<Rightarrow> False)"

definition table_path_exists :: "table_fs \<Rightarrow> ustr \<Rightarrow> bool" where
  "table_path_exists fs p = (map_of fs p \<noteq> None)"

definition table_open_wb :: "table_fs \<Rightarrow> ustr \<Rightarrow> table_fs \<times> py_error option" where
  "table_open_wb fs p =
     (case map_of fs p of
        Some (Directory w) \<Rightarrow> (fs, Some OSError)
      | _ \<Rightarrow> (table_put p (RegularFile []) fs, None))"

definition table_write :: "table_fs \<Rightarrow> ustr \<Rightarrow> byte list \<Rightarrow> table_fs \<times> nat \<times> py_error option" where
  "table_write fs p d = (table_put p (RegularFile d) fs, length d, None)"

definition table_remove :: "table_fs \<Rightarrow> ustr \<Rightarrow> table_fs \<times> py_error option" where
  "table_remove fs p =
     (case map_of fs p of
        Some (RegularFile d) \<Rightarrow> (filter (\<lambda>e. fst e \<noteq> p) fs, None)
      | Some (Directory w) \<Rightarrow> (fs, Some PermissionError)
      | None \<Rightarrow> (fs, Some FileNotFoundError))"

definition table_stat :: "table_fs \<Rightarrow> ustr \<Rightarrow> py_error + stat_result" where
  "table_stat fs p =
     (case map_of fs p of
        Some (RegularFile d) \<Rightarrow> Inr \<lparr>st_size = length d, st_ctime = 0, st_mtime = 0, st_atime = 0\<rparr>
      | Some (Directory w) \<Rightarrow> Inr \<lparr>st_size = 0, st_ctime = 0, st_mtime = 0, st_atime = 0\<rparr>
      | None \<Rightarrow> Inl FileNotFoundError)"

definition table_os :: "table_fs os_api" where
  "table_os =
     \<lparr>os_makedirs = table_makedirs, os_access_w = table_access_w,
      os_path_exists = table_path_exists, os_open_wb = table_open_wb,
      os_write = table_write, os_remove = table_remove, os_stat = table_stat\<rparr>"

text \<open>The same file system when \<open>os.stat\<close> is refused on every path.\<close>

definition table_os_stat_denied :: "table_fs os_api" where
  "table_os_stat_denied = table_os\<lparr>os_stat := (\<lambda>fs p. Inl PermissionError)\<rparr>"

text \<open>
  Two states for the examples: the group directory \<open>uploads/g\<close> holding
  \<open>report.pdf\<close>, and the same directory holding \<open>report_1.pdf\<close> as well.
\<close>

definition fs_one_report :: table_fs where
  "fs_one_report =
     [(ascii ''uploads/g'', Directory True), (ascii ''uploads/g/report.pdf'', RegularFile [])]"


text \<open>
  Further example states: the path of the group directory taken by a regular file, a
  group directory without write permission, and an upload whose stream has the given
  content, position and closed flag.
\<close>

definition fs_group_is_file :: table_fs where
  "fs_group_is_file = [(ascii ''uploads/g'', RegularFile [])]"

definition fs_group_read_only :: table_fs where
  "fs_group_read_only = [(ascii ''uploads/g'', Directory False)]"

definition upload_at :: "byte list \<Rightarrow> nat \<Rightarrow> bool \<Rightarrow> upload_file" where
  "upload_at d n c =
     \<lparr>filename = Some (ascii ''x.txt''), content_type = None,
      fileobj = \<lparr>content = d, position = n, closed = c\<rparr>\<rparr>"

section \<open>Properties of normalisation\<close>

lemma re_sub_unsafe_clean: "set (re_sub_unsafe s) \<inter> unsafe_chars = {}"
  by (auto simp: re_sub_unsafe_def unsafe_chars_def)

lemma re_sub_unsafe_id: "set s \<inter> unsafe_chars = {} \<Longrightarrow> re_sub_unsafe s = s"
  by (induction s) (auto simp: re_sub_unsafe_def)

lemma re_sub_unsafe_twice: "re_sub_unsafe (re_sub_unsafe s) = re_sub_unsafe s"
  by (rule re_sub_unsafe_id) (rule re_sub_unsafe_clean)

lemma normalize_filename_no_sep: "47 \<notin> set (normalize_filename nfc x)"
proof -
  have "set (normalize_filename nfc x) \<inter> unsafe_chars = {}"
    by (simp add: normalize_filename_def Let_def re_sub_unsafe_clean)
  moreover have "47 \<in> unsafe_chars" by (simp add: unsafe_chars_def)
  ultimately show ?thesis by blast
qed

text \<open>
  Claim C3. Whatever its input, a string or bytes, \<open>normalize_filename\<close> returns a
  string without any of the nine unsafe characters; for a string input the output is
  the NFC form of the input, position by position, with every unsafe character replaced
  by an underscore and every other character kept.
\<close>

theorem normalize_filename_no_unsafe:
  "set (normalize_filename nfc x) \<inter> unsafe_chars = {} \<and>
   length (normalize_filename nfc (Str s)) = length (nfc s) \<and>
   (\<forall>i < length (nfc s).
      normalize_filename nfc (Str s) ! i = (if nfc s ! i \<in> unsafe_chars then 95 else nfc s ! i))"
  by (simp add: normalize_filename_def Let_def re_sub_unsafe_clean)
    (simp add: re_sub_unsafe_def)

theorem normalize_filename_no_unsafe_witness:
  "set (normalize_filename nfc_fixed (Bytes [97, 58, 98])) \<inter> unsafe_chars = {} \<and>
   length (normalize_filename nfc_fixed (Str (ascii ''a<b>''))) = 4 \<and>
   normalize_filename nfc_fixed (Str (ascii ''a<b>'')) ! 1 = 95 \<and>
   normalize_filename nfc_fixed (Str (ascii ''a<b>'')) ! 2 = 98"
proof -
  have n: "nfc_fixed (ascii ''a<b>'') = [97, 60, 98, 62]"
    by (simp add: nfc_fixed_def ascii_def)
  have u: "(60::nat) \<in> unsafe_chars" "(98::nat) \<notin> unsafe_chars"
    by (simp_all add: unsafe_chars_def)
  from normalize_filename_no_unsafe [of nfc_fixed "Bytes [97, 58, 98]" "ascii ''a<b>''"]
  show ?thesis unfolding n using u by simp
qed

lemma nfc_overlay_length: "length (nfc_overlay s) \<le> length s"
  by (induction s rule: nfc_overlay.induct) auto

lemma nfc_overlay_fixed_iff: "nfc_overlay s = s \<longleftrightarrow> composed s"
proof (induction s rule: nfc_overlay.induct)
  case (3 c d cs)
  have short: "length (nfc_overlay cs) < length (d # cs)"
    using nfc_overlay_length [of cs] by simp
  have ne: "x # nfc_overlay cs \<noteq> c # d # cs" for x
  proof
    assume "x # nfc_overlay cs = c # d # cs"
    then have "length (x # nfc_overlay cs) = length (c # d # cs)" by (rule arg_cong)
    then show False using short by simp
  qed
  show ?case
  proof (cases "d = 824 \<and> (c = 60 \<or> c = 61 \<or> c = 62)")
    case True
    then show ?thesis using ne by auto
  next
    case False
    then have "nfc_overlay (c # d # cs) = c # nfc_overlay (d # cs)" by auto
    moreover have "nfc_overlay (d # cs) = d # cs \<longleftrightarrow> composed (d # cs)"
      using False 3 by blast
    ultimately show ?thesis using False by simp
  qed
qed simp_all

lemma nfc_overlay_head:
  "nfc_overlay (c # cs) \<noteq> [] \<and> (hd (nfc_overlay (c # cs)) = 824 \<longrightarrow> c = 824)"
  by (cases cs) auto

lemma composed_Cons_other: "composed ys \<Longrightarrow> x \<noteq> 60 \<Longrightarrow> x \<noteq> 61 \<Longrightarrow> x \<noteq> 62 \<Longrightarrow> composed (x # ys)"
  by (cases ys) auto

lemma composed_Cons_keep:
  assumes "composed (nfc_overlay (d # cs))" "\<not> (d = 824 \<and> (c = 60 \<or> c = 61 \<or> c = 62))"
  shows "composed (c # nfc_overlay (d # cs))"
proof (cases "nfc_overlay (d # cs)")
  case Nil
  then show ?thesis by simp
next
  case (Cons y ys)
  then have "y = 824 \<longrightarrow> d = 824" using nfc_overlay_head [of d cs] by simp
  then show ?thesis using assms Cons by auto
qed

lemma composed_nfc_overlay: "composed (nfc_overlay s)"
proof (induction s rule: nfc_overlay.induct)
  case (3 c d cs)
  show ?case
  proof (cases "d = 824 \<and> (c = 60 \<or> c = 61 \<or> c = 62)")
    case True
    then have "composed (nfc_overlay cs)" using 3 by blast
    then have "composed (x # nfc_overlay cs)" if "x \<in> {8814, 8800, 8815}" for x
      using that by (intro composed_Cons_other) auto
    then show ?thesis using True by auto
  next
    case False
    then have "composed (nfc_overlay (d # cs))" using 3 by blast
    then have "composed (c # nfc_overlay (d # cs))" using False by (rule composed_Cons_keep)
    then show ?thesis using False by auto
  qed
qed simp_all

lemma nfc_overlay_idem: "nfc_overlay (nfc_overlay s) = nfc_overlay s"
  by (simp add: nfc_overlay_fixed_iff composed_nfc_overlay)

lemma composed_re_sub: "composed s \<Longrightarrow> composed (re_sub_unsafe s)"
  by (induction s rule: composed.induct) (auto simp: re_sub_unsafe_def unsafe_chars_def)

lemma nfc_overlay_stable: "nfc_overlay s = s \<Longrightarrow> nfc_overlay (re_sub_unsafe s) = re_sub_unsafe s"
  by (simp add: nfc_overlay_fixed_iff composed_re_sub)

text \<open>
  Claim C6. \<open>normalize_filename\<close> is idempotent. The two hypotheses are facts of the
  Unicode standard about NFC: normalising twice is normalising once, and a text in NFC
  stays in NFC when unsafe characters are replaced by underscores (the underscore
  takes part in no canonical composition).
\<close>

theorem normalize_filename_idempotent:
  assumes idem: "\<And>s. nfc (nfc s) = nfc s"
    and stable: "\<And>s. nfc s = s \<Longrightarrow> nfc (re_sub_unsafe s) = re_sub_unsafe s"
  shows "normalize_filename nfc (Str (normalize_filename nfc x)) = normalize_filename nfc x"
proof -
  have "nfc (re_sub_unsafe (nfc t)) = re_sub_unsafe (nfc t)" for t
    by (rule stable) (rule idem)
  then show ?thesis
    by (simp add: normalize_filename_def Let_def re_sub_unsafe_twice)
qed

theorem normalize_filename_idempotent_witness:
  "normalize_filename nfc_overlay (Str [97, 60, 824, 60, 98]) = [97, 8814, 95, 98] \<and>
   normalize_filename nfc_overlay (Str [97, 8814, 95, 98]) = [97, 8814, 95, 98]"
proof -
  have v: "normalize_filename nfc_overlay (Str [97, 60, 824, 60, 98]) = [97, 8814, 95, 98]"
    by (simp add: normalize_filename_def re_sub_unsafe_def unsafe_chars_def)
  have "normalize_filename nfc_overlay
          (Str (normalize_filename nfc_overlay (Str [97, 60, 824, 60, 98]))) =
        normalize_filename nfc_overlay (Str [97, 60, 824, 60, 98])"
    by (rule normalize_filename_idempotent) (rule nfc_overlay_idem, rule nfc_overlay_stable)
  then show ?thesis unfolding v by simp
qed

section \<open>Properties of splitext and of lower-casing\<close>

lemma rfind_notin: "c \<notin> set xs \<Longrightarrow> rfind c xs = - 1"
  by (induction xs) (auto simp: Let_def)

lemma rfind_ge: "- 1 \<le> rfind c xs"
  by (induction xs) (auto simp: Let_def)

lemma rfind_last: "c \<notin> set ys \<Longrightarrow> rfind c (xs @ c # ys) = int (length xs)"
  by (induction xs) (auto simp: Let_def rfind_notin)

lemma basename_nosep: "47 \<notin> set xs \<Longrightarrow> basename xs = xs"
  by (simp add: basename_def rfind_notin)

lemma basename_append: "47 \<notin> set bs \<Longrightarrow> basename (as @ 47 # bs) = bs"
  by (simp add: basename_def rfind_last nat_add_distrib)

lemma splitext_nodot: "46 \<notin> set p \<Longrightarrow> splitext p = (p, [])"
  using rfind_ge [of 47 p] by (simp add: splitext_def Let_def rfind_notin)

lemma stem_slice:
  assumes "46 \<notin> set ys" "47 \<notin> set ys"
  shows "take (nat (int (length xs)) - nat (rfind 47 (xs @ 46 # ys) + 1))
           (drop (nat (rfind 47 (xs @ 46 # ys) + 1)) (xs @ 46 # ys)) = basename xs
         \<and> rfind 47 (xs @ 46 # ys) < int (length xs)"
proof (cases "47 \<in> set xs")
  case False
  then have "rfind 47 (xs @ 46 # ys) = - 1" using assms by (simp add: rfind_notin)
  then show ?thesis using False by (simp add: basename_nosep)
next
  case True
  then obtain as bs where xs: "xs = as @ 47 # bs" "47 \<notin> set bs"
    by (meson split_list_last)
  have "rfind 47 (as @ 47 # (bs @ 46 # ys)) = int (length as)"
    using xs assms by (intro rfind_last) simp
  then have r: "rfind 47 (xs @ 46 # ys) = int (length as)" using xs by simp
  show ?thesis unfolding r using xs by (simp add: basename_append nat_add_distrib)
qed

text \<open>The structural reading of \<open>splitext\<close> at the last dot of a path.\<close>

lemma splitext_dot:
  assumes "46 \<notin> set ys"
  shows "splitext (xs @ 46 # ys) =
    (if 47 \<notin> set ys \<and> list_ex (\<lambda>c. c \<noteq> 46) (basename xs) then (xs, 46 # ys)
     else (xs @ 46 # ys, []))"
proof -
  have d: "rfind 46 (xs @ 46 # ys) = int (length xs)" using assms by (rule rfind_last)
  show ?thesis
  proof (cases "47 \<in> set ys")
    case True
    then obtain as bs where ys: "ys = as @ 47 # bs" "47 \<notin> set bs"
      by (meson split_list_last)
    have "rfind 47 ((xs @ 46 # as) @ 47 # bs) = int (length (xs @ 46 # as))"
      using ys by (intro rfind_last) simp
    then have "rfind 47 (xs @ 46 # ys) = int (length xs) + 1 + int (length as)"
      using ys by simp
    then show ?thesis using True d by (simp add: splitext_def Let_def)
  next
    case False
    from stem_slice [OF assms False, of xs] show ?thesis
      using False d by (simp add: splitext_def Let_def)
  qed
qed

lemma splitext_concat: "fst (splitext p) @ snd (splitext p) = p"
  by (simp add: splitext_def Let_def)

text \<open>
  For a name without a slash, \<open>splitext\<close> gives the extension of the specification
  when something other than dots stands before the final dot, and no extension at all
  otherwise.
\<close>

lemma spec_parts_nodot: "46 \<notin> set p \<Longrightarrow> spec_extension p = [] \<and> spec_stem p = p"
  by (simp add: spec_extension_def spec_stem_def rfind_notin)

lemma spec_parts_dot:
  "46 \<notin> set ys \<Longrightarrow> spec_extension (xs @ 46 # ys) = 46 # ys \<and> spec_stem (xs @ 46 # ys) = xs"
  by (simp add: spec_extension_def spec_stem_def rfind_last)

lemma splitext_spec:
  assumes "47 \<notin> set p"
  shows "splitext p =
    (if list_ex (\<lambda>c. c \<noteq> 46) (spec_stem p) then (spec_stem p, spec_extension p)
     else (p, []))"
proof (cases "46 \<in> set p")
  case False
  then show ?thesis by (simp add: splitext_nodot spec_parts_nodot)
next
  case True
  then obtain xs ys where p: "p = xs @ 46 # ys" "46 \<notin> set ys"
    by (meson split_list_last)
  have "47 \<notin> set xs" "47 \<notin> set ys" using assms p by simp_all
  then show ?thesis
    unfolding p(1) splitext_dot [OF p(2)] using spec_parts_dot [OF p(2), of xs]
    by (simp add: basename_nosep)
qed

lemma lower_from_append:
  "lower_from lc pre (xs @ ys) post =
     lower_from lc pre xs (ys @ post) @ lower_from lc (pre @ xs) ys post"
  by (induction xs arbitrary: pre) simp_all

lemma lower_from_dot: "lower_from lc pre (46 # xs) post = 46 # lower_from lc (pre @ [46]) xs post"
  by (simp add: ascii_lower_def)

lemma lower_from_sep: "lower_from lc pre (47 # xs) post = 47 # lower_from lc (pre @ [47]) xs post"
  by (simp add: ascii_lower_def)

lemma lower_from_mem_dot:
  "lower_table_ok lc \<Longrightarrow> 46 \<in> set (lower_from lc pre xs post) \<longleftrightarrow> 46 \<in> set xs"
  by (induction xs arbitrary: pre) (auto simp: lower_table_ok_def ascii_lower_def)

lemma lower_from_mem_sep:
  "lower_table_ok lc \<Longrightarrow> 47 \<in> set (lower_from lc pre xs post) \<longleftrightarrow> 47 \<in> set xs"
  by (induction xs arbitrary: pre) (auto simp: lower_table_ok_def ascii_lower_def)

lemma list_ex_nonempty_all: "ys \<noteq> [] \<Longrightarrow> a \<notin> set ys \<Longrightarrow> list_ex (\<lambda>c. c \<noteq> a) ys"
  by (cases ys) (auto simp: list_ex_iff)

lemma lower_from_nondot:
  assumes "lower_table_ok lc"
  shows "list_ex (\<lambda>c. c \<noteq> 46) (lower_from lc pre xs post) \<longleftrightarrow> list_ex (\<lambda>c. c \<noteq> 46) xs"
proof (induction xs arbitrary: pre)
  case Nil
  show ?case by simp
next
  case (Cons x xs)
  let ?h = "if x < 128 then [ascii_lower x] else lc pre x (xs @ post)"
  have head: "list_ex (\<lambda>c. c \<noteq> 46) ?h \<longleftrightarrow> x \<noteq> 46"
  proof (cases "x < 128")
    case True
    then show ?thesis by (auto simp: ascii_lower_def)
  next
    case False
    then have "lc pre x (xs @ post) \<noteq> []" "46 \<notin> set (lc pre x (xs @ post))"
      using assms by (auto simp: lower_table_ok_def)
    then have "list_ex (\<lambda>c. c \<noteq> 46) (lc pre x (xs @ post))" by (rule list_ex_nonempty_all)
    then show ?thesis using False by simp
  qed
  have "lower_from lc pre (x # xs) post = ?h @ lower_from lc (pre @ [x]) xs post" by simp
  then show ?case using head Cons.IH [of "pre @ [x]"] by (simp del: lower_from.simps)
qed

lemma basename_lower:
  assumes "lower_table_ok lc"
  shows "basename (lower_from lc [] xs post) =
         lower_from lc (take (length xs - length (basename xs)) xs) (basename xs) post"
proof (cases "47 \<in> set xs")
  case False
  then have "47 \<notin> set (lower_from lc [] xs post)" using assms by (simp add: lower_from_mem_sep)
  then show ?thesis using False by (simp add: basename_nosep)
next
  case True
  then obtain as bs where xs: "xs = as @ 47 # bs" "47 \<notin> set bs"
    by (meson split_list_last)
  have b: "basename xs = bs" using xs by (simp add: basename_append)
  have "47 \<notin> set (lower_from lc (as @ [47]) bs post)"
    using xs assms by (simp add: lower_from_mem_sep)
  then have "basename (lower_from lc [] xs post) = lower_from lc (as @ [47]) bs post"
    using xs by (simp add: lower_from_append basename_append ascii_lower_def)
  then show ?thesis unfolding b using xs by simp
qed

text \<open>
  Lower-casing the whole name and taking the extension, as the source does, gives the
  extension of the name, lower-cased where it stands.
\<close>

lemma splitext_lower:
  assumes "lower_table_ok lc"
  shows "snd (splitext (str_lower lc s)) =
         lower_from lc (fst (splitext s)) (snd (splitext s)) []"
proof (cases "46 \<in> set s")
  case False
  then have "46 \<notin> set (str_lower lc s)"
    using assms by (simp add: str_lower_def lower_from_mem_dot)
  then show ?thesis using False by (simp add: splitext_nodot)
next
  case True
  then obtain xs ys where s: "s = xs @ 46 # ys" "46 \<notin> set ys"
    by (meson split_list_last)
  let ?lx = "lower_from lc [] xs (46 # ys)" and ?ly = "lower_from lc (xs @ [46]) ys []"
  have l: "str_lower lc s = ?lx @ 46 # ?ly"
    using s by (simp add: str_lower_def lower_from_append ascii_lower_def)
  have nd: "46 \<notin> set ?ly" using s assms by (simp add: lower_from_mem_dot)
  have sep: "47 \<in> set ?ly \<longleftrightarrow> 47 \<in> set ys" using assms by (simp add: lower_from_mem_sep)
  have stem: "list_ex (\<lambda>c. c \<noteq> 46) (basename ?lx) \<longleftrightarrow> list_ex (\<lambda>c. c \<noteq> 46) (basename xs)"
    using assms by (simp add: basename_lower lower_from_nondot)
  show ?thesis
    unfolding l splitext_dot [OF nd] unfolding s splitext_dot [OF s(2)]
    using sep stem by (simp add: ascii_lower_def)
qed

lemma lower_from_ascii:
  "\<forall>c \<in> set s. c < 128 \<Longrightarrow> lower_from lc pre s post = map ascii_lower s"
  by (induction s arbitrary: pre) simp_all

lemma ascii_lower_small: "ascii_lower c < 128 \<Longrightarrow> c < 128"
  by (simp add: ascii_lower_def split: if_splits)

lemma allowed_ascii: "e \<in> set ALLOWED_EXTENSIONS \<Longrightarrow> c \<in> set e \<Longrightarrow> c < 128"
  by (auto simp: ALLOWED_EXTENSIONS_def ascii_def)

lemma lower_from_allowed:
  assumes "map ascii_lower e \<in> set ALLOWED_EXTENSIONS"
  shows "lower_from lc pre e post = map ascii_lower e"
proof (rule lower_from_ascii, rule ballI)
  fix c assume "c \<in> set e"
  then have "ascii_lower c \<in> set (map ascii_lower e)" by simp
  then have "ascii_lower c < 128" using assms by (rule allowed_ascii [rotated])
  then show "c < 128" by (rule ascii_lower_small)
qed

lemma lc_fixed_ok: "lower_table_ok lc_fixed"
  by (simp add: lower_table_ok_def lc_fixed_def)

section \<open>Properties of validation\<close>

lemma msg_empty_name_nonempty: "msg_empty_name \<noteq> []"
  by (simp add: msg_empty_name_def)

lemma msg_bad_type_nonempty: "msg_bad_type \<noteq> []"
  by (simp add: msg_bad_type_def)

lemma msg_differ: "msg_bad_type \<noteq> msg_empty_name"
  by (simp add: msg_bad_type_def msg_empty_name_def)

lemma empty_not_allowed: "[] \<notin> set ALLOWED_EXTENSIONS"
  by (simp add: ALLOWED_EXTENSIONS_def ascii_def)

text \<open>
  Claim C1, amended. The extension that \<open>validate_upload_file\<close> tests is that of
  \<open>os.path.splitext\<close>: the text from the final dot of the normalised filename on, when
  something other than dots stands before that dot, and nothing otherwise.
  \<open>validate_upload_file\<close> answers \<open>True\<close> exactly when the filename is present and
  non-empty, the normalised filename has a character other than a dot before its final
  dot, and the text from the final dot on, lower-cased, is in the allow-list. The
  message is empty exactly when the answer is \<open>True\<close>, so every refusal carries a
  message. In particular such a name with an allowed extension written in any mix of
  capital and small letters is accepted, a name whose extension is not allowed is
  refused, and so is a name that is dots only before its final dot.
\<close>

theorem validate_upload_file_ok_iff:
  assumes "lower_table_ok lc"
  shows "(case validate_upload_file lc nfc f of
            (f', ok, message) \<Rightarrow>
              (ok \<longleftrightarrow>
                 (\<exists>name. filename f = Some name \<and> name \<noteq> [] \<and>
                    lower_from lc (fst (splitext (normalize_filename nfc (Str name))))
                      (snd (splitext (normalize_filename nfc (Str name)))) []
                      \<in> set ALLOWED_EXTENSIONS)) \<and>
              (message = [] \<longleftrightarrow> ok) \<and>
              (\<forall>name. filename f = Some name \<and> name \<noteq> [] \<and>
                  map ascii_lower (snd (splitext (normalize_filename nfc (Str name))))
                    \<in> set ALLOWED_EXTENSIONS \<longrightarrow> ok) \<and>
              (ok \<longleftrightarrow>
                 (\<exists>name. filename f = Some name \<and> name \<noteq> [] \<and>
                    list_ex (\<lambda>c. c \<noteq> 46) (spec_stem (normalize_filename nfc (Str name))) \<and>
                    lower_from lc (spec_stem (normalize_filename nfc (Str name)))
                      (spec_extension (normalize_filename nfc (Str name))) []
                      \<in> set ALLOWED_EXTENSIONS)) \<and>
              (\<forall>name. filename f = Some name \<and> name \<noteq> [] \<and>
                  list_ex (\<lambda>c. c \<noteq> 46) (spec_stem (normalize_filename nfc (Str name))) \<and>
                  map ascii_lower (spec_extension (normalize_filename nfc (Str name)))
                    \<in> set ALLOWED_EXTENSIONS \<longrightarrow> ok) \<and>
              (\<forall>name. filename f = Some name \<and>
                  \<not> list_ex (\<lambda>c. c \<noteq> 46) (spec_stem (normalize_filename nfc (Str name)))
                  \<longrightarrow> \<not> ok))"
proof (cases "filename f")
  case None
  then show ?thesis
    by (simp add: validate_upload_file_def msg_empty_name_nonempty)
next
  case (Some name)
  show ?thesis
  proof (cases "name = []")
    case True
    then show ?thesis using Some
      by (simp add: validate_upload_file_def msg_empty_name_nonempty)
  next
    case False
    let ?n = "normalize_filename nfc (Str name)"
    let ?E = "lower_from lc (fst (splitext ?n)) (snd (splitext ?n)) []"
    let ?S = "list_ex (\<lambda>c. c \<noteq> 46) (spec_stem ?n)"
    have sp: "splitext ?n = (if ?S then (spec_stem ?n, spec_extension ?n) else (?n, []))"
      by (rule splitext_spec) (rule normalize_filename_no_sep)
    have v: "validate_upload_file lc nfc f =
        (f\<lparr>filename := Some ?n\<rparr>, ?E \<in> set ALLOWED_EXTENSIONS,
         if ?E \<in> set ALLOWED_EXTENSIONS then [] else msg_bad_type)"
      using False Some splitext_lower [OF assms, of ?n]
      by (simp add: validate_upload_file_def Let_def)
    have any_case: "?E \<in> set ALLOWED_EXTENSIONS"
      if "map ascii_lower (snd (splitext ?n)) \<in> set ALLOWED_EXTENSIONS"
      using that by (simp add: lower_from_allowed)
    have spec_iff: "?E \<in> set ALLOWED_EXTENSIONS \<longleftrightarrow>
        ?S \<and> lower_from lc (spec_stem ?n) (spec_extension ?n) [] \<in> set ALLOWED_EXTENSIONS"
    proof (cases ?S)
      case True
      then show ?thesis using sp by simp
    next
      case no_stem: False
      then have "?E = []" using sp by simp
      then show ?thesis using no_stem empty_not_allowed by simp
    qed
    have spec_any: "?E \<in> set ALLOWED_EXTENSIONS"
      if "?S" "map ascii_lower (spec_extension ?n) \<in> set ALLOWED_EXTENSIONS"
      using that spec_iff by (simp add: lower_from_allowed)
    show ?thesis
      unfolding v using False Some any_case spec_iff spec_any msg_bad_type_nonempty
      by simp
  qed
qed

theorem validate_upload_file_ok_iff_witness:
  "validate_upload_file lc_fixed nfc_fixed (upload_named (ascii ''Report.PDF'')) =
     (upload_named (ascii ''Report.PDF''), True, []) \<and>
   lower_from lc_fixed (fst (splitext (normalize_filename nfc_fixed (Str (ascii ''Report.PDF'')))))
     (snd (splitext (normalize_filename nfc_fixed (Str (ascii ''Report.PDF''))))) []
     = ascii ''.pdf'' \<and>
   snd (validate_upload_file lc_fixed nfc_fixed (upload_named (ascii ''notes.exe''))) =
     (False, msg_bad_type)"
proof -
  have n: "normalize_filename nfc_fixed (Str (ascii ''Report.PDF'')) = ascii ''Report.PDF''"
    by (simp add: normalize_filename_def nfc_fixed_def ascii_def re_sub_unsafe_def
        unsafe_chars_def)
  have e: "lower_from lc_fixed (fst (splitext (ascii ''Report.PDF'')))
             (snd (splitext (ascii ''Report.PDF''))) [] = ascii ''.pdf''"
    by (simp add: splitext_def ascii_lower_def ascii_def)
  have a: "ascii ''.pdf'' \<in> set ALLOWED_EXTENSIONS"
    by (simp add: ALLOWED_EXTENSIONS_def)
  have f: "filename (upload_named (ascii ''Report.PDF'')) = Some (ascii ''Report.PDF'')"
    by (simp add: upload_named_def)
  have ne: "ascii ''Report.PDF'' \<noteq> []"
    by (simp add: ascii_def)
  have u: "fst (validate_upload_file lc_fixed nfc_fixed (upload_named (ascii ''Report.PDF'')))
           = upload_named (ascii ''Report.PDF'')"
    using f ne n by (simp add: validate_upload_file_def Let_def upload_named_def)
  have bad: "snd (validate_upload_file lc_fixed nfc_fixed (upload_named (ascii ''notes.exe''))) =
     (False, msg_bad_type)"
    by (simp add: validate_upload_file_def Let_def upload_named_def normalize_filename_def
        nfc_fixed_def ascii_def re_sub_unsafe_def unsafe_chars_def splitext_def
        str_lower_def ascii_lower_def ALLOWED_EXTENSIONS_def)
  from validate_upload_file_ok_iff [OF lc_fixed_ok, where nfc = nfc_fixed
      and f = "upload_named (ascii ''Report.PDF'')"]
  show ?thesis using u f ne n e a bad
    by (cases "validate_upload_file lc_fixed nfc_fixed (upload_named (ascii ''Report.PDF''))")
      auto
qed

text \<open>
  Claim C1 as stated fails on a name that is an allowed extension and nothing else:
  the text after the final dot of \<open>.pdf\<close> and of \<open>..pdf\<close> is \<open>.pdf\<close>, which is in the
  allow-list, but \<open>os.path.splitext\<close> gives such a name no extension, and
  \<open>validate_upload_file\<close> refuses it.
\<close>

theorem validate_upload_file_dotfile_counterexample:
  "map ascii_lower (spec_extension (normalize_filename nfc_fixed (Str (ascii ''.pdf''))))
     \<in> set ALLOWED_EXTENSIONS \<and>
   validate_upload_file lc_fixed nfc_fixed (upload_named (ascii ''.pdf'')) =
     (upload_named (ascii ''.pdf''), False, msg_bad_type) \<and>
   map ascii_lower (spec_extension (normalize_filename nfc_fixed (Str (ascii ''..pdf''))))
     \<in> set ALLOWED_EXTENSIONS \<and>
   validate_upload_file lc_fixed nfc_fixed (upload_named (ascii ''..pdf'')) =
     (upload_named (ascii ''..pdf''), False, msg_bad_type)"
  by (simp add: validate_upload_file_def Let_def upload_named_def normalize_filename_def
      nfc_fixed_def ascii_def re_sub_unsafe_def unsafe_chars_def splitext_def spec_extension_def
      str_lower_def ascii_lower_def ALLOWED_EXTENSIONS_def)

text \<open>
  Claim C9. With a present, non-empty filename, \<open>validate_upload_file\<close> stores the
  normalised filename in the upload object before it looks at the extension, so the
  object is updated whether the answer is \<open>True\<close> or the refusal of the extension;
  with an absent or empty filename, and only then, it answers with the empty-name
  message, and the object is left as it was.
\<close>

theorem validate_upload_file_assigns_filename:
  "(filename f = Some name \<and> name \<noteq> [] \<longrightarrow>
      fst (validate_upload_file lc nfc f) =
        f\<lparr>filename := Some (normalize_filename nfc (Str name))\<rparr> \<and>
      snd (snd (validate_upload_file lc nfc f)) \<noteq> msg_empty_name) \<and>
   (filename f = None \<or> filename f = Some [] \<longrightarrow>
      validate_upload_file lc nfc f = (f, False, msg_empty_name)) \<and>
   (snd (validate_upload_file lc nfc f) = (False, msg_bad_type) \<longrightarrow>
      (\<exists>n. filename f = Some n \<and> n \<noteq> [] \<and>
         fst (validate_upload_file lc nfc f) =
           f\<lparr>filename := Some (normalize_filename nfc (Str n))\<rparr>))"
proof (cases "filename f")
  case None
  then show ?thesis using msg_differ by (simp add: validate_upload_file_def)
next
  case (Some n)
  then show ?thesis using msg_differ msg_empty_name_nonempty
    by (cases "n = []") (auto simp: validate_upload_file_def Let_def)
qed

theorem validate_upload_file_assigns_filename_witness:
  "validate_upload_file lc_fixed nfc_fixed (upload_named (ascii ''my:file.exe'')) =
     (upload_named (ascii ''my_file.exe''), False, msg_bad_type) \<and>
   validate_upload_file lc_fixed nfc_fixed (upload_named []) =
     (upload_named [], False, msg_empty_name)"
proof -
  let ?f = "upload_named (ascii ''my:file.exe'')"
  have n: "normalize_filename nfc_fixed (Str (ascii ''my:file.exe'')) = ascii ''my_file.exe''"
    by (simp add: normalize_filename_def nfc_fixed_def ascii_def re_sub_unsafe_def
        unsafe_chars_def)
  have f: "filename ?f = Some (ascii ''my:file.exe'')" "ascii ''my:file.exe'' \<noteq> []"
    by (simp_all add: upload_named_def ascii_def)
  have u: "?f\<lparr>filename := Some (ascii ''my_file.exe'')\<rparr> = upload_named (ascii ''my_file.exe'')"
    by (simp add: upload_named_def)
  have bad: "snd (validate_upload_file lc_fixed nfc_fixed ?f) = (False, msg_bad_type)"
    by (simp add: validate_upload_file_def Let_def upload_named_def normalize_filename_def
        nfc_fixed_def ascii_def re_sub_unsafe_def unsafe_chars_def splitext_def
        str_lower_def ascii_lower_def ALLOWED_EXTENSIONS_def)
  have e: "filename (upload_named []) = Some []"
    by (simp add: upload_named_def)
  from validate_upload_file_assigns_filename [of ?f "ascii ''my:file.exe''" lc_fixed nfc_fixed]
    validate_upload_file_assigns_filename [of "upload_named []" "[]" lc_fixed nfc_fixed]
  show ?thesis using f n u bad e
    by (cases "validate_upload_file lc_fixed nfc_fixed ?f") auto
qed

text \<open>
  Claim C5. The filename \<open>../../etc/passwd\<close> (an ASCII text, which NFC leaves as it
  is) is normalised to \<open>.._.._etc_passwd\<close>, which holds no unsafe character; its
  extension \<open>._etc_passwd\<close> is not in the allow-list, and \<open>validate_upload_file\<close>
  refuses the upload with the message of the extension rule.
\<close>

theorem traversal_name_rejected:
  assumes "nfc (ascii ''../../etc/passwd'') = ascii ''../../etc/passwd''"
  shows "normalize_filename nfc (Str (ascii ''../../etc/passwd'')) = ascii ''.._.._etc_passwd'' \<and>
    set (ascii ''.._.._etc_passwd'') \<inter> unsafe_chars = {} \<and>
    snd (splitext (str_lower lc (ascii ''.._.._etc_passwd''))) = ascii ''._etc_passwd'' \<and>
    ascii ''._etc_passwd'' \<notin> set ALLOWED_EXTENSIONS \<and>
    validate_upload_file lc nfc (f\<lparr>filename := Some (ascii ''../../etc/passwd'')\<rparr>) =
      (f\<lparr>filename := Some (ascii ''.._.._etc_passwd'')\<rparr>, False, msg_bad_type)"
proof -
  have n: "normalize_filename nfc (Str (ascii ''../../etc/passwd'')) = ascii ''.._.._etc_passwd''"
    unfolding normalize_filename_def Let_def filename_arg.case assms
    by (simp add: ascii_def re_sub_unsafe_def unsafe_chars_def)
  have c: "set (ascii ''.._.._etc_passwd'') \<inter> unsafe_chars = {}"
    by (simp add: ascii_def unsafe_chars_def)
  have e: "snd (splitext (str_lower lc (ascii ''.._.._etc_passwd''))) = ascii ''._etc_passwd''"
    by (simp add: splitext_def str_lower_def ascii_lower_def ascii_def)
  have a: "ascii ''._etc_passwd'' \<notin> set ALLOWED_EXTENSIONS"
    by (simp add: ALLOWED_EXTENSIONS_def ascii_def)
  have ne: "ascii ''../../etc/passwd'' \<noteq> []"
    by (simp add: ascii_def)
  have v: "validate_upload_file lc nfc (f\<lparr>filename := Some (ascii ''../../etc/passwd'')\<rparr>) =
      (f\<lparr>filename := Some (ascii ''.._.._etc_passwd'')\<rparr>, False, msg_bad_type)"
    using ne a by (simp add: validate_upload_file_def Let_def n e)
  show ?thesis using n c e a v by simp
qed

theorem traversal_name_rejected_witness:
  "validate_upload_file lc_fixed nfc_fixed (upload_named (ascii ''../../etc/passwd'')) =
     (upload_named (ascii ''.._.._etc_passwd''), False, msg_bad_type)"
proof -
  have h: "nfc_fixed (ascii ''../../etc/passwd'') = ascii ''../../etc/passwd''"
    by (simp add: nfc_fixed_def)
  have u: "(upload_named [])\<lparr>filename := Some x\<rparr> = upload_named x" for x
    by (simp add: upload_named_def)
  from traversal_name_rejected [where nfc = nfc_fixed and lc = lc_fixed
      and f = "upload_named []", OF h]
  show ?thesis unfolding u by simp
qed

section \<open>Properties of the header filename\<close>

lemma radix2: "q * 64 + m = d \<Longrightarrow> d * 64 + r = c \<Longrightarrow> q * 4096 + m * 64 + r = (c::nat)"
  by auto

lemma radix3: "q * 64 + m = d \<Longrightarrow> d * 4096 + k = c \<Longrightarrow> q * 262144 + m * 4096 + k = (c::nat)"
  by auto

lemma split3: "c div 4096 * 4096 + c div 64 mod 64 * 64 + c mod 64 = (c::nat)"
proof -
  have a: "c div 64 div 64 = c div 4096" by (simp add: div_mult2_eq)
  have "c div 64 div 64 * 64 + c div 64 mod 64 = c div 64" by (rule div_mult_mod_eq)
  then have b: "c div 4096 * 64 + c div 64 mod 64 = c div 64" using a by simp
  have "c div 64 * 64 + c mod 64 = c" by (rule div_mult_mod_eq)
  with b show ?thesis by (rule radix2)
qed

lemma split4:
  "c div 262144 * 262144 + c div 4096 mod 64 * 4096 + c div 64 mod 64 * 64 + c mod 64 = (c::nat)"
proof -
  have a: "c div 4096 div 64 = c div 262144" by (simp add: div_mult2_eq)
  have "c div 4096 div 64 * 64 + c div 4096 mod 64 = c div 4096" by (rule div_mult_mod_eq)
  then have b: "c div 262144 * 64 + c div 4096 mod 64 = c div 4096" using a by simp
  have "c div 4096 * 4096 + (c div 64 mod 64 * 64 + c mod 64) = c"
    using split3 [of c] by simp
  with b have "c div 262144 * 262144 + c div 4096 mod 64 * 4096 + (c div 64 mod 64 * 64 + c mod 64) = c"
    by (rule radix3)
  then show ?thesis by simp
qed

lemma hexval_hexdigit: "n < 16 \<Longrightarrow> hexval (hexdigit n) = Some n"
  by (auto simp: hexval_def hexdigit_def)

lemma percent_decode_quote_byte:
  "percent_decode (quote_byte b @ r) = map_option ((#) b) (percent_decode r)"
proof (cases "always_safe (unat b) \<or> unat b = 47")
  case True
  then have "unat b \<noteq> 37" "unat b < 128" by (auto simp: always_safe_def)
  then show ?thesis using True by (simp add: quote_byte_def)
next
  case False
  have "unat b < 256" using unsigned_less [of b, where 'a = nat] by simp
  then have "unat b div 16 < 16" by simp
  moreover have "unat b mod 16 < 16" by simp
  moreover have "(of_nat (16 * (unat b div 16) + unat b mod 16) :: byte) = b" by simp
  ultimately show ?thesis using False
    by (simp add: quote_byte_def hexval_hexdigit)
qed

lemma percent_decode_quote: "percent_decode (quote bs) = Some bs"
  by (induction bs) (simp_all add: quote_def percent_decode_quote_byte)

lemma utf8_encode_cp_bytes: "utf8_encode_cp c = Some bs \<Longrightarrow> b \<in> set bs \<Longrightarrow> b < 256"
  by (auto simp: utf8_encode_cp_def split: if_splits)

lemma utf8_encode_nat_bytes: "utf8_encode_nat s = Some bs \<Longrightarrow> b \<in> set bs \<Longrightarrow> b < 256"
proof (induction s arbitrary: bs)
  case Nil
  then show ?case by simp
next
  case (Cons c cs)
  then show ?case
    by (auto split: option.splits dest: utf8_encode_cp_bytes)
qed

lemma utf8_decode_encode_cp:
  assumes "utf8_encode_cp c = Some bs"
  shows "utf8_decode_nat (bs @ r) = map_option ((#) c) (utf8_decode_nat r)"
proof -
  consider "c < 128" | "128 \<le> c" "c < 2048" | "2048 \<le> c" "c < 65536" "\<not> is_surrogate c"
    | "65536 \<le> c" "c < 1114112"
    using assms by (auto simp: utf8_encode_cp_def split: if_splits)
  then show ?thesis
  proof cases
    case 1
    then show ?thesis using assms by (auto simp: utf8_encode_cp_def)
  next
    case 2
    then have bs: "bs = [192 + c div 64, 128 + c mod 64]"
      using assms by (auto simp: utf8_encode_cp_def)
    have "2 \<le> c div 64" "c div 64 < 32" using 2 by auto
    moreover have "c div 64 * 64 + c mod 64 = c" by simp
    ultimately show ?thesis unfolding bs by (simp add: is_cont_def)
  next
    case 3
    then have bs: "bs = [224 + c div 4096, 128 + c div 64 mod 64, 128 + c mod 64]"
      using assms by (auto simp: utf8_encode_cp_def)
    have "c div 4096 < 16" using 3 by auto
    moreover have "c div 4096 * 4096 + c div 64 mod 64 * 64 + c mod 64 = c"
      by (rule split3)
    ultimately show ?thesis unfolding bs using 3 by (simp add: is_cont_def Let_def)
  next
    case 4
    then have bs: "bs = [240 + c div 262144, 128 + c div 4096 mod 64, 128 + c div 64 mod 64,
              128 + c mod 64]"
      using assms by (auto simp: utf8_encode_cp_def)
    have "c div 262144 < 5" using 4 by auto
    moreover have "c div 262144 * 262144 + c div 4096 mod 64 * 4096 + c div 64 mod 64 * 64 + c mod 64 = c"
      by (rule split4)
    ultimately show ?thesis unfolding bs using 4 by (simp add: is_cont_def Let_def)
  qed
qed

lemma utf8_decode_encode: "utf8_encode_nat s = Some bs \<Longrightarrow> utf8_decode_nat bs = Some s"
proof (induction s arbitrary: bs)
  case Nil
  then show ?case by simp
next
  case (Cons c cs)
  then show ?case
    by (auto split: option.splits simp: utf8_decode_encode_cp)
qed

lemma utf8_encode_total: "encodable s \<Longrightarrow> \<exists>bs. utf8_encode_nat s = Some bs"
  by (induction s) (auto simp: encodable_def utf8_encode_cp_def)

lemma map_unat_of_nat: "(\<And>b. b \<in> set bs \<Longrightarrow> b < 256) \<Longrightarrow> map unat (map of_nat bs :: byte list) = bs"
  by (induction bs) (simp_all add: unat_of_nat)

lemma utf8_encode_cp_fails:
  "\<not> (c < 1114112 \<and> \<not> is_surrogate c) \<Longrightarrow> utf8_encode_cp c = None"
  by (auto simp: utf8_encode_cp_def is_surrogate_def)

lemma utf8_encode_fails: "\<not> encodable s \<Longrightarrow> utf8_encode_nat s = None"
proof (induction s)
  case Nil
  then show ?case by (simp add: encodable_def)
next
  case (Cons c cs)
  show ?case
  proof (cases "c < 1114112 \<and> \<not> is_surrogate c")
    case False
    then show ?thesis by (simp add: utf8_encode_cp_fails)
  next
    case True
    then have "\<not> encodable cs" using Cons.prems by (simp add: encodable_def)
    then have "utf8_encode_nat cs = None" by (rule Cons.IH)
    then show ?thesis by (simp split: option.splits)
  qed
qed

text \<open>
  Claim C7, amended. For every filename whose normalised form has no surrogate code
  point, \<open>get_safe_filename_for_headers\<close> returns \<open>filename*=UTF-8''\<close> followed by a
  percent-encoded text which, percent-decoded and read as UTF-8, is the normalised
  filename. For every other filename the encoding step raises \<open>UnicodeEncodeError\<close>.
\<close>

theorem header_name_roundtrip:
  "(encodable (normalize_filename nfc name) \<longrightarrow>
      (\<exists>enc. get_safe_filename_for_headers nfc name = Inr (header_prefix @ enc) \<and>
             percent_decode_utf8 enc = Some (normalize_filename nfc name))) \<and>
   (\<not> encodable (normalize_filename nfc name) \<longrightarrow>
      get_safe_filename_for_headers nfc name = Inl UnicodeEncodeError)"
proof (intro conjI impI)
  assume enc: "encodable (normalize_filename nfc name)"
  from utf8_encode_total [OF enc] obtain bs
    where bs: "utf8_encode_nat (normalize_filename nfc name) = Some bs" by blast
  have small: "\<And>b. b \<in> set bs \<Longrightarrow> b < 256"
    using bs by (rule utf8_encode_nat_bytes)
  have m: "map unat (map of_nat bs :: byte list) = bs"
    by (rule map_unat_of_nat) (rule small)
  have "decode_utf8 (map of_nat bs) = Inr (normalize_filename nfc name)"
    unfolding decode_utf8_def m utf8_decode_encode [OF bs] by simp
  then have "percent_decode_utf8 (quote (map of_nat bs)) = Some (normalize_filename nfc name)"
    by (simp add: percent_decode_utf8_def percent_decode_quote)
  moreover have "get_safe_filename_for_headers nfc name =
      Inr (header_prefix @ quote (map of_nat bs))"
    using bs by (simp add: get_safe_filename_for_headers_def encode_utf8_def)
  ultimately show "\<exists>enc. get_safe_filename_for_headers nfc name = Inr (header_prefix @ enc) \<and>
      percent_decode_utf8 enc = Some (normalize_filename nfc name)"
    by blast
next
  assume "\<not> encodable (normalize_filename nfc name)"
  then have "utf8_encode_nat (normalize_filename nfc name) = None" by (rule utf8_encode_fails)
  then show "get_safe_filename_for_headers nfc name = Inl UnicodeEncodeError"
    by (simp add: get_safe_filename_for_headers_def encode_utf8_def)
qed

lemma report_header:
  "get_safe_filename_for_headers nfc_fixed (Str [25253, 21578, 46, 112, 100, 102]) =
     Inr (header_prefix @ ascii ''%E6%8A%A5%E5%91%8A.pdf'')"
  by (simp add: get_safe_filename_for_headers_def normalize_filename_def nfc_fixed_def
      re_sub_unsafe_def unsafe_chars_def encode_utf8_def utf8_encode_cp_def is_surrogate_def
      quote_def quote_byte_def always_safe_def hexdigit_def ascii_def)

theorem header_name_roundtrip_witness:
  "get_safe_filename_for_headers nfc_fixed (Str [25253, 21578, 46, 112, 100, 102]) =
     Inr (header_prefix @ ascii ''%E6%8A%A5%E5%91%8A.pdf'') \<and>
   percent_decode_utf8 (ascii ''%E6%8A%A5%E5%91%8A.pdf'') = Some [25253, 21578, 46, 112, 100, 102]"
proof -
  have n: "normalize_filename nfc_fixed (Str [25253, 21578, 46, 112, 100, 102]) =
      [25253, 21578, 46, 112, 100, 102]"
    by (simp add: normalize_filename_def nfc_fixed_def re_sub_unsafe_def unsafe_chars_def)
  have h: "encodable (normalize_filename nfc_fixed (Str [25253, 21578, 46, 112, 100, 102]))"
    unfolding n by (simp add: encodable_def is_surrogate_def)
  from header_name_roundtrip [of nfc_fixed "Str [25253, 21578, 46, 112, 100, 102]"] h
  show ?thesis unfolding n report_header by simp
qed

text \<open>
  Claim C7 as stated, for every filename, fails: a string with a lone surrogate (what
  Python makes of an undecodable byte of a filename) makes \<open>encode\<close> raise, and the
  exception leaves \<open>get_safe_filename_for_headers\<close>.
\<close>

theorem header_name_surrogate_counterexample:
  "get_safe_filename_for_headers nfc_fixed (Str [56448]) = Inl UnicodeEncodeError"
  by (simp add: get_safe_filename_for_headers_def normalize_filename_def nfc_fixed_def
      re_sub_unsafe_def unsafe_chars_def encode_utf8_def utf8_encode_cp_def is_surrogate_def)

section \<open>Properties of the destination path\<close>











lemma str_nat_digits: "set (str_nat n) \<subseteq> {48..57}"
proof (induction n rule: str_nat.induct)
  case (1 n)
  show ?case
  proof (cases "n < 10")
    case True
    then show ?thesis by (subst str_nat.simps) simp
  next
    case False
    then have "set (str_nat (n div 10)) \<subseteq> {48..57}" by (rule "1.IH")
    moreover have "n mod 10 \<le> 9" by simp
    ultimately show ?thesis using False
      by (subst str_nat.simps) simp
  qed
qed

lemma str_nat_no_sep: "47 \<notin> set (str_nat n)"
  using str_nat_digits [of n] by auto












lemma suffix_loop_invariant:
  assumes "suffix_loop ex gp gd base ext c full rel = Some r"
    and "47 \<notin> set base" and "47 \<notin> set ext" and "consistent_pair gp gd full rel"
  shows "consistent_pair gp gd (fst r) (fst (snd r))"
proof -
  let ?P = "\<lambda>(ex :: ustr \<Rightarrow> bool) gp gd base ext (c :: nat) full rel (r :: ustr \<times> ustr \<times> nat).
      47 \<notin> set base \<longrightarrow> 47 \<notin> set ext \<longrightarrow> consistent_pair gp gd full rel \<longrightarrow>
      consistent_pair gp gd (fst r) (fst (snd r))"
  have "?P ex gp gd base ext c full rel r"
  proof (rule suffix_loop.raw_induct [where P = ?P, OF _ assms(1)])
    fix loop :: "(ustr \<Rightarrow> bool) \<Rightarrow> ustr \<Rightarrow> ustr \<Rightarrow> ustr \<Rightarrow> ustr \<Rightarrow> nat \<Rightarrow> ustr \<Rightarrow> ustr
      \<Rightarrow> (ustr \<times> ustr \<times> nat) option"
    fix ex gp gd base ext c full rel r
    assume ih: "\<And>ex gp gd base ext c full rel r.
        loop ex gp gd base ext c full rel = Some r \<Longrightarrow> ?P ex gp gd base ext c full rel r"
    assume body: "(if ex full then
        (let new_filename = base @ [95] @ str_nat c @ ext
         in loop ex gp gd base ext (c + 1) (path_join gp new_filename)
              (path_join gd new_filename))
        else Some (full, rel, c)) = Some r"
    show "?P ex gp gd base ext c full rel r"
    proof (intro impI)
      assume nb: "47 \<notin> set base" and ne: "47 \<notin> set ext"
        and inv: "consistent_pair gp gd full rel"
      show "consistent_pair gp gd (fst r) (fst (snd r))"
      proof (cases "ex full")
        case False
        then have "r = (full, rel, c)" using body by simp
        then show ?thesis using inv by simp
      next
        case True
        let ?new = "base @ [95] @ str_nat c @ ext"
        have call: "loop ex gp gd base ext (c + 1) (path_join gp ?new) (path_join gd ?new) = Some r"
          using True body by (simp add: Let_def)
        have "47 \<notin> set ?new" using nb ne str_nat_no_sep [of c] by simp
        then have "consistent_pair gp gd (path_join gp ?new) (path_join gd ?new)"
          unfolding consistent_pair_def by blast
        with ih [OF call] nb ne show ?thesis by blast
      qed
    qed
  qed
  then show ?thesis using assms(2-4) by blast
qed

lemma splitext_no_sep:
  assumes "47 \<notin> set p"
  shows "47 \<notin> set (fst (splitext p))" "47 \<notin> set (snd (splitext p))"
proof -
  have "set (fst (splitext p)) \<union> set (snd (splitext p)) = set p"
    using splitext_concat [of p] by (metis set_append)
  then show "47 \<notin> set (fst (splitext p))" "47 \<notin> set (snd (splitext p))"
    using assms by auto
qed

lemma path_join_assoc:
  assumes "47 \<notin> set name"
  shows "path_join (path_join a b) name = path_join a (path_join b name)"
proof -
  have n: "take 1 name \<noteq> [47]" using assms by (cases name) auto
  show ?thesis
  proof (cases "take 1 b = [47]")
    case True
    then obtain t where b: "b = 47 # t" by (cases b) auto
    then have "take 1 (path_join b name) = [47]" using n by (simp add: path_join_def)
    then show ?thesis using True by (simp add: path_join_def)
  next
    case False
    show ?thesis
    proof (cases "b = []")
      case True
      then show ?thesis using n by (simp add: path_join_def)
    next
      case nonempty: False
      then have h: "take 1 (b @ r) = take 1 b" for r by (cases b) auto
      show ?thesis using False nonempty n h [of name] h [of "47 # name"]
        by (simp add: path_join_def)
    qed
  qed
qed

lemma basename_path_join:
  assumes "47 \<notin> set name"
  shows "basename (path_join a name) = name"
proof -
  have n: "take 1 name \<noteq> [47]" using assms by (cases name) auto
  show ?thesis
  proof (cases "a = []")
    case True
    then show ?thesis using n assms by (simp add: path_join_def basename_nosep)
  next
    case False
    show ?thesis
    proof (cases "last a = 47")
      case True
      then have "a = butlast a @ [47]" using False by (metis append_butlast_last_id)
      then have "path_join a name = butlast a @ 47 # name"
        using n True False by (simp add: path_join_def)
      then show ?thesis using assms by (simp add: basename_append)
    next
      case notsep: False
      then have "path_join a name = a @ 47 # name" using n False by (simp add: path_join_def)
      then show ?thesis using assms by (simp add: basename_append)
    qed
  qed
qed

lemma path_join_prefix: "take 1 name \<noteq> [47] \<Longrightarrow> \<exists>rest. path_join a name = a @ rest"
  by (simp add: path_join_def)

text \<open>
  Claim C10. Whenever \<open>generate_file_path\<close> returns a pair, the full path is the
  upload root joined with the relative path, both paths end in the same final name,
  and the relative path begins with the group directory. The proof carries the loop's
  invariant from the first candidate through every iteration.
\<close>

theorem generate_file_path_consistent:
  assumes "generate_file_path os nfc fs group_dir fname = Some (fs', Inr (full_path, relative_path))"
  shows "full_path = path_join UPLOAD_ROOT relative_path \<and>
         basename full_path = basename relative_path \<and>
         (\<exists>rest. relative_path = group_dir @ rest)"
proof -
  let ?name = "normalize_filename nfc fname"
  let ?gp = "path_join UPLOAD_ROOT group_dir"
  obtain c where loop:
    "suffix_loop (os_path_exists os fs') ?gp group_dir (fst (splitext ?name)) (snd (splitext ?name)) 1
       (path_join ?gp ?name) (path_join group_dir ?name) = Some (full_path, relative_path, c)"
    using assms
    by (auto simp: generate_file_path_def Let_def split_beta
        split: prod.splits option.splits if_splits)
  have ns: "47 \<notin> set ?name" by (rule normalize_filename_no_sep)
  have "consistent_pair ?gp group_dir (path_join ?gp ?name) (path_join group_dir ?name)"
    unfolding consistent_pair_def using ns by blast
  with suffix_loop_invariant [OF loop splitext_no_sep [OF ns]]
  have "consistent_pair ?gp group_dir full_path relative_path" by simp
  then obtain name where name: "47 \<notin> set name" "full_path = path_join ?gp name"
    "relative_path = path_join group_dir name"
    unfolding consistent_pair_def by blast
  have n: "take 1 name \<noteq> [47]" using name(1) by (cases name) auto
  have "full_path = path_join UPLOAD_ROOT relative_path"
    using name by (simp add: path_join_assoc)
  moreover have "basename full_path = basename relative_path"
    using name by (simp add: basename_path_join)
  moreover have "\<exists>rest. relative_path = group_dir @ rest"
    unfolding name(3) using n by (rule path_join_prefix)
  ultimately show ?thesis by blast
qed

lemma resolve_one_report:
  "generate_file_path table_os nfc_fixed fs_one_report (ascii ''g'') (Str (ascii ''report.pdf'')) =
     Some (fs_one_report, Inr (ascii ''uploads/g/report_1.pdf'', ascii ''g/report_1.pdf''))"
  by code_simp

theorem generate_file_path_consistent_witness:
  "ascii ''uploads/g/report_1.pdf'' = path_join UPLOAD_ROOT (ascii ''g/report_1.pdf'') \<and>
   basename (ascii ''uploads/g/report_1.pdf'') = basename (ascii ''g/report_1.pdf'') \<and>
   (\<exists>rest. ascii ''g/report_1.pdf'' = ascii ''g'' @ rest)"
  by (rule generate_file_path_consistent [OF resolve_one_report])

lemma suffix_loop_no_error:
  "map_option (\<lambda>(full_path', relative_path', counter'). (fs1, Inr (full_path', relative_path'))) r
     \<noteq> Some (fs', Inl e)"
  by (cases r) (auto split: prod.splits)

text \<open>
  Claim C8, amended. \<open>generate_file_path\<close> raises the HTTP error 500 when the group
  directory could be ensured but is not writable. That is not its only exception: when
  \<open>os.makedirs\<close> fails, its exception leaves \<open>generate_file_path\<close> as it is. These
  are the two exceptions of \<open>generate_file_path\<close>. \<open>cleanup_file\<close> and
  \<open>get_file_stats\<close> raise nothing. \<open>cleanup_file\<close> answers \<open>True\<close> when the path
  does not exist or was removed and \<open>False\<close> when \<open>os.remove\<close> fails;
  \<open>get_file_stats\<close> answers \<open>None\<close> when the path does not exist or \<open>os.stat\<close>
  fails, and the metadata of \<open>os.stat\<close> otherwise.
\<close>

theorem generate_file_path_faults:
  "(os_makedirs os fs (path_join UPLOAD_ROOT group_dir) = (fsm, None) \<and>
    \<not> os_access_w os fsm (path_join UPLOAD_ROOT group_dir) \<longrightarrow>
      generate_file_path os nfc fs group_dir fname =
        Some (fsm, Inl (HTTPException 500 msg_not_writable))) \<and>
   (os_makedirs os fs (path_join UPLOAD_ROOT group_dir) = (fsm, Some e) \<longrightarrow>
      generate_file_path os nfc fs group_dir fname = Some (fsm, Inl e)) \<and>
   (generate_file_path os nfc fs group_dir fname = Some (fs', Inl e') \<longrightarrow>
      os_makedirs os fs (path_join UPLOAD_ROOT group_dir) = (fs', Some e') \<or>
      (os_makedirs os fs (path_join UPLOAD_ROOT group_dir) = (fs', None) \<and>
       \<not> os_access_w os fs' (path_join UPLOAD_ROOT group_dir) \<and>
       e' = HTTPException 500 msg_not_writable)) \<and>
   (\<exists>b. snd (cleanup_file os fs file_path) = Inr b) \<and>
   (\<exists>v. get_file_stats os fs file_path = Inr v) \<and>
   (\<not> os_path_exists os fs file_path \<longrightarrow>
      cleanup_file os fs file_path = (fs, Inr True)) \<and>
   (os_path_exists os fs file_path \<and> os_remove os fs file_path = (fsr, None) \<longrightarrow>
      cleanup_file os fs file_path = (fsr, Inr True)) \<and>
   (os_path_exists os fs file_path \<and> os_remove os fs file_path = (fsr, Some er) \<longrightarrow>
      cleanup_file os fs file_path = (fsr, Inr False)) \<and>
   (\<not> os_path_exists os fs file_path \<longrightarrow> get_file_stats os fs file_path = Inr None) \<and>
   (os_path_exists os fs file_path \<and> os_stat os fs file_path = Inr st \<longrightarrow>
      get_file_stats os fs file_path = Inr (Some st)) \<and>
   (os_path_exists os fs file_path \<and> os_stat os fs file_path = Inl es \<longrightarrow>
      get_file_stats os fs file_path = Inr None)"
proof (intro conjI impI)
  assume "os_makedirs os fs (path_join UPLOAD_ROOT group_dir) = (fsm, None) \<and>
    \<not> os_access_w os fsm (path_join UPLOAD_ROOT group_dir)"
  then show "generate_file_path os nfc fs group_dir fname =
        Some (fsm, Inl (HTTPException 500 msg_not_writable))"
    by (simp add: generate_file_path_def Let_def)
next
  assume "os_makedirs os fs (path_join UPLOAD_ROOT group_dir) = (fsm, Some e)"
  then show "generate_file_path os nfc fs group_dir fname = Some (fsm, Inl e)"
    by (simp add: generate_file_path_def Let_def)
next
  assume r: "generate_file_path os nfc fs group_dir fname = Some (fs', Inl e')"
  obtain fs2 err where mk: "os_makedirs os fs (path_join UPLOAD_ROOT group_dir) = (fs2, err)"
    by (cases "os_makedirs os fs (path_join UPLOAD_ROOT group_dir)")
  show "os_makedirs os fs (path_join UPLOAD_ROOT group_dir) = (fs', Some e') \<or>
      (os_makedirs os fs (path_join UPLOAD_ROOT group_dir) = (fs', None) \<and>
       \<not> os_access_w os fs' (path_join UPLOAD_ROOT group_dir) \<and>
       e' = HTTPException 500 msg_not_writable)"
  proof (cases err)
    case (Some x)
    then show ?thesis using r mk by (simp add: generate_file_path_def Let_def)
  next
    case None
    show ?thesis
    proof (cases "os_access_w os fs2 (path_join UPLOAD_ROOT group_dir)")
      case False
      then show ?thesis using r mk None by (simp add: generate_file_path_def Let_def)
    next
      case True
      then show ?thesis using r mk None suffix_loop_no_error
        by (simp add: generate_file_path_def Let_def split_beta)
    qed
  qed
next
  show "\<exists>b. snd (cleanup_file os fs file_path) = Inr b"
    by (auto simp: cleanup_file_def Let_def split: prod.splits option.splits sum.splits)
next
  show "\<exists>v. get_file_stats os fs file_path = Inr v"
    by (auto simp: get_file_stats_def Let_def split: sum.splits)
next
  assume "\<not> os_path_exists os fs file_path"
  then show "cleanup_file os fs file_path = (fs, Inr True)"
    by (simp add: cleanup_file_def)
next
  assume "os_path_exists os fs file_path \<and> os_remove os fs file_path = (fsr, None)"
  then show "cleanup_file os fs file_path = (fsr, Inr True)"
    by (simp add: cleanup_file_def)
next
  assume "os_path_exists os fs file_path \<and> os_remove os fs file_path = (fsr, Some er)"
  then show "cleanup_file os fs file_path = (fsr, Inr False)"
    by (simp add: cleanup_file_def)
next
  assume "\<not> os_path_exists os fs file_path"
  then show "get_file_stats os fs file_path = Inr None"
    by (simp add: get_file_stats_def)
next
  assume "os_path_exists os fs file_path \<and> os_stat os fs file_path = Inr st"
  then show "get_file_stats os fs file_path = Inr (Some st)"
    by (simp add: get_file_stats_def)
next
  assume "os_path_exists os fs file_path \<and> os_stat os fs file_path = Inl es"
  then show "get_file_stats os fs file_path = Inr None"
    by (simp add: get_file_stats_def)
qed

theorem generate_file_path_faults_witness:
  "generate_file_path table_os nfc_fixed fs_group_read_only (ascii ''g'') (Str (ascii ''a.pdf'')) =
     Some (fs_group_read_only, Inl (HTTPException 500 msg_not_writable)) \<and>
   generate_file_path table_os nfc_fixed fs_group_is_file (ascii ''g'') (Str (ascii ''a.pdf'')) =
     Some (fs_group_is_file, Inl FileExistsError) \<and>
   cleanup_file table_os fs_group_read_only (ascii ''uploads/g'') =
     (fs_group_read_only, Inr False) \<and>
   cleanup_file table_os fs_group_is_file (ascii ''uploads/g'') = ([], Inr True) \<and>
   cleanup_file table_os fs_group_is_file (ascii ''uploads/h'') = (fs_group_is_file, Inr True) \<and>
   get_file_stats table_os fs_group_is_file (ascii ''uploads/h'') = Inr None \<and>
   get_file_stats table_os fs_group_is_file (ascii ''uploads/g'') =
     Inr (Some \<lparr>st_size = 0, st_ctime = 0, st_mtime = 0, st_atime = 0\<rparr>) \<and>
   get_file_stats table_os_stat_denied fs_group_is_file (ascii ''uploads/g'') = Inr None"
proof -
  have g: "path_join UPLOAD_ROOT (ascii ''g'') = ascii ''uploads/g''"
    by (simp add: path_join_def UPLOAD_ROOT_def ascii_def)
  have a: "os_makedirs table_os fs_group_read_only (path_join UPLOAD_ROOT (ascii ''g'')) =
       (fs_group_read_only, None) \<and>
     \<not> os_access_w table_os fs_group_read_only (path_join UPLOAD_ROOT (ascii ''g''))"
    unfolding g
    by (simp add: table_os_def table_makedirs_def table_access_w_def fs_group_read_only_def
        ascii_def)
  have b: "os_makedirs table_os fs_group_is_file (path_join UPLOAD_ROOT (ascii ''g'')) =
       (fs_group_is_file, Some FileExistsError)"
    unfolding g
    by (simp add: table_os_def table_makedirs_def fs_group_is_file_def ascii_def)
  have c: "os_path_exists table_os fs_group_read_only (ascii ''uploads/g'') \<and>
      os_remove table_os fs_group_read_only (ascii ''uploads/g'') =
        (fs_group_read_only, Some PermissionError)"
    by (simp add: table_os_def table_path_exists_def table_remove_def fs_group_read_only_def
        ascii_def)
  have d: "os_path_exists table_os fs_group_is_file (ascii ''uploads/g'') \<and>
      os_remove table_os fs_group_is_file (ascii ''uploads/g'') = ([], None)"
    by (simp add: table_os_def table_path_exists_def table_remove_def fs_group_is_file_def
        ascii_def)
  have e: "\<not> os_path_exists table_os fs_group_is_file (ascii ''uploads/h'')"
    by (simp add: table_os_def table_path_exists_def fs_group_is_file_def ascii_def)
  have f: "os_path_exists table_os fs_group_is_file (ascii ''uploads/g'') \<and>
      os_stat table_os fs_group_is_file (ascii ''uploads/g'') =
        Inr \<lparr>st_size = 0, st_ctime = 0, st_mtime = 0, st_atime = 0\<rparr>"
    by (simp add: table_os_def table_path_exists_def table_stat_def fs_group_is_file_def
        ascii_def)
  have h: "os_path_exists table_os_stat_denied fs_group_is_file (ascii ''uploads/g'') \<and>
      os_stat table_os_stat_denied fs_group_is_file (ascii ''uploads/g'') = Inl PermissionError"
    by (simp add: table_os_stat_denied_def table_os_def table_path_exists_def
        fs_group_is_file_def ascii_def)
  from generate_file_path_faults [where os = table_os and fs = fs_group_read_only
      and group_dir = "ascii ''g''" and fsm = fs_group_read_only and nfc = nfc_fixed
      and fname = "Str (ascii ''a.pdf'')" and file_path = "ascii ''uploads/g''"
      and fsr = fs_group_read_only and er = PermissionError]
  have r1: "generate_file_path table_os nfc_fixed fs_group_read_only (ascii ''g'')
        (Str (ascii ''a.pdf'')) =
      Some (fs_group_read_only, Inl (HTTPException 500 msg_not_writable))"
    and r3: "cleanup_file table_os fs_group_read_only (ascii ''uploads/g'') =
      (fs_group_read_only, Inr False)"
    using a c by blast+
  from generate_file_path_faults [where os = table_os and fs = fs_group_is_file
      and group_dir = "ascii ''g''" and fsm = fs_group_is_file and e = FileExistsError
      and nfc = nfc_fixed and fname = "Str (ascii ''a.pdf'')"
      and file_path = "ascii ''uploads/g''" and fsr = "[]"
      and st = "\<lparr>st_size = 0, st_ctime = 0, st_mtime = 0, st_atime = 0\<rparr>"]
  have r2: "generate_file_path table_os nfc_fixed fs_group_is_file (ascii ''g'')
        (Str (ascii ''a.pdf'')) = Some (fs_group_is_file, Inl FileExistsError)"
    and r4: "cleanup_file table_os fs_group_is_file (ascii ''uploads/g'') = ([], Inr True)"
    and r7: "get_file_stats table_os fs_group_is_file (ascii ''uploads/g'') =
      Inr (Some \<lparr>st_size = 0, st_ctime = 0, st_mtime = 0, st_atime = 0\<rparr>)"
    using b d f by blast+
  from generate_file_path_faults [where os = table_os and fs = fs_group_is_file
      and file_path = "ascii ''uploads/h''"]
  have r5: "cleanup_file table_os fs_group_is_file (ascii ''uploads/h'') =
      (fs_group_is_file, Inr True)"
    and r6: "get_file_stats table_os fs_group_is_file (ascii ''uploads/h'') = Inr None"
    using e by blast+
  from generate_file_path_faults [where os = table_os_stat_denied and fs = fs_group_is_file
      and file_path = "ascii ''uploads/g''" and es = PermissionError]
  have r8: "get_file_stats table_os_stat_denied fs_group_is_file (ascii ''uploads/g'') = Inr None"
    using h by blast
  show ?thesis using r1 r2 r3 r4 r5 r6 r7 r8 by blast
qed

text \<open>
  Claim C8 as stated fails: with a regular file where the group directory should be,
  \<open>os.makedirs\<close> raises \<open>FileExistsError\<close>, and \<open>generate_file_path\<close> lets it through.
\<close>

theorem generate_file_path_oserror_counterexample:
  "generate_file_path table_os nfc_fixed fs_group_is_file (ascii ''g'') (Str (ascii ''a.pdf'')) =
     Some (fs_group_is_file, Inl FileExistsError)"
  by (simp add: generate_file_path_def Let_def table_os_def table_makedirs_def
      fs_group_is_file_def path_join_def UPLOAD_ROOT_def ascii_def)

section \<open>Properties of saving\<close>

lemma copyfileobj_closed: "closed (fst (snd (copyfileobj os fs src dest))) = closed src"
  by (simp add: copyfileobj_def split: prod.splits)

lemma save_body_closed: "closed (fst (snd (save_body os fs src dest))) = closed src"
proof -
  have "closed s' = closed src" if "copyfileobj os fs2 src dest = (fs3, s', r)" for fs2 fs3 s' r
    using copyfileobj_closed [of os fs2 src dest] that by simp
  then show ?thesis
    by (auto simp: save_body_def split: prod.splits option.splits)
qed

lemma save_uploaded_file_open:
  assumes "\<not> closed (fileobj f)"
  shows "save_uploaded_file os fs f destination =
    (case save_body os fs (fileobj f) destination of
       (fs', src', r) \<Rightarrow>
         (fs', f\<lparr>fileobj := src'\<lparr>position := 0\<rparr>\<rparr>,
          Inr (case r of Inl e \<Rightarrow> False | Inr b \<Rightarrow> b)))"
proof -
  obtain fs' src' r where b: "save_body os fs (fileobj f) destination = (fs', src', r)"
    by (cases "save_body os fs (fileobj f) destination")
  have "\<not> closed src'" using save_body_closed [of os fs "fileobj f" destination] assms b by simp
  then show ?thesis using b
    by (simp add: save_uploaded_file_def stream_seek_def Let_def split: sum.splits)
qed

lemma save_uploaded_file_closed:
  assumes "closed (fileobj f)"
  shows "snd (snd (save_uploaded_file os fs f destination)) = Inl ValueError"
proof -
  obtain fs' src' r where b: "save_body os fs (fileobj f) destination = (fs', src', r)"
    by (cases "save_body os fs (fileobj f) destination")
  have "closed src'" using save_body_closed [of os fs "fileobj f" destination] assms b by simp
  then show ?thesis using b
    by (simp add: save_uploaded_file_def stream_seek_def Let_def)
qed

text \<open>
  The behaviour of \<open>save_uploaded_file\<close>, case by case. With a stream that is not
  closed it returns a truth value and leaves the stream at position 0: \<open>False\<close> when
  creating the directory, opening the destination or copying fails, \<open>True\<close> when all
  three succeed. With a closed stream the result is the \<open>ValueError\<close> of the \<open>seek\<close> in
  the \<open>finally\<close> clause.
\<close>

theorem save_uploaded_file_result:
  "(\<not> closed (fileobj f) \<longrightarrow>
      (\<exists>b. snd (snd (save_uploaded_file os fs f destination)) = Inr b) \<and>
      position (fileobj (fst (snd (save_uploaded_file os fs f destination)))) = 0) \<and>
   (\<not> closed (fileobj f) \<and> os_makedirs os fs (dirname destination) = (fsa, Some e) \<longrightarrow>
      snd (snd (save_uploaded_file os fs f destination)) = Inr False) \<and>
   (\<not> closed (fileobj f) \<and> os_makedirs os fs (dirname destination) = (fsa, None) \<and>
    os_open_wb os fsa destination = (fsb, Some e) \<longrightarrow>
      snd (snd (save_uploaded_file os fs f destination)) = Inr False) \<and>
   (\<not> closed (fileobj f) \<and> os_makedirs os fs (dirname destination) = (fsa, None) \<and>
    os_open_wb os fsa destination = (fsb, None) \<and>
    os_write os fsb destination (drop (position (fileobj f)) (content (fileobj f))) =
      (fsc, n, Some e) \<longrightarrow>
      snd (snd (save_uploaded_file os fs f destination)) = Inr False) \<and>
   (\<not> closed (fileobj f) \<and> os_makedirs os fs (dirname destination) = (fsa, None) \<and>
    os_open_wb os fsa destination = (fsb, None) \<and>
    os_write os fsb destination (drop (position (fileobj f)) (content (fileobj f))) =
      (fsc, n, None) \<longrightarrow>
      snd (snd (save_uploaded_file os fs f destination)) = Inr True) \<and>
   (closed (fileobj f) \<longrightarrow>
      snd (snd (save_uploaded_file os fs f destination)) = Inl ValueError)"
proof (intro conjI impI)
  assume o: "\<not> closed (fileobj f)"
  show "\<exists>b. snd (snd (save_uploaded_file os fs f destination)) = Inr b"
    unfolding save_uploaded_file_open [OF o] by (simp split: prod.splits)
  show "position (fileobj (fst (snd (save_uploaded_file os fs f destination)))) = 0"
    unfolding save_uploaded_file_open [OF o] by (simp split: prod.splits)
next
  assume "\<not> closed (fileobj f) \<and> os_makedirs os fs (dirname destination) = (fsa, Some e)"
  then show "snd (snd (save_uploaded_file os fs f destination)) = Inr False"
    by (simp add: save_uploaded_file_open save_body_def)
next
  assume "\<not> closed (fileobj f) \<and> os_makedirs os fs (dirname destination) = (fsa, None) \<and>
    os_open_wb os fsa destination = (fsb, Some e)"
  then show "snd (snd (save_uploaded_file os fs f destination)) = Inr False"
    by (simp add: save_uploaded_file_open save_body_def)
next
  assume "\<not> closed (fileobj f) \<and> os_makedirs os fs (dirname destination) = (fsa, None) \<and>
    os_open_wb os fsa destination = (fsb, None) \<and>
    os_write os fsb destination (drop (position (fileobj f)) (content (fileobj f))) =
      (fsc, n, Some e)"
  then show "snd (snd (save_uploaded_file os fs f destination)) = Inr False"
    by (simp add: save_uploaded_file_open save_body_def copyfileobj_def)
next
  assume "\<not> closed (fileobj f) \<and> os_makedirs os fs (dirname destination) = (fsa, None) \<and>
    os_open_wb os fsa destination = (fsb, None) \<and>
    os_write os fsb destination (drop (position (fileobj f)) (content (fileobj f))) =
      (fsc, n, None)"
  then show "snd (snd (save_uploaded_file os fs f destination)) = Inr True"
    by (simp add: save_uploaded_file_open save_body_def copyfileobj_def)
next
  assume "closed (fileobj f)"
  then show "snd (snd (save_uploaded_file os fs f destination)) = Inl ValueError"
    by (rule save_uploaded_file_closed)
qed

theorem save_uploaded_file_result_witness:
  "snd (snd (save_uploaded_file table_os [] (upload_at [1, 2, 3] 1 False)
      (ascii ''uploads/g/x.txt''))) = Inr True \<and>
   position (fileobj (fst (snd (save_uploaded_file table_os [] (upload_at [1, 2, 3] 1 False)
      (ascii ''uploads/g/x.txt''))))) = 0 \<and>
   snd (snd (save_uploaded_file table_os [(ascii ''uploads/g/x.txt'', Directory True)]
      (upload_at [1, 2, 3] 1 False) (ascii ''uploads/g/x.txt''))) = Inr False"
proof -
  let ?f = "upload_at [1, 2, 3] 1 False"
  let ?d = "ascii ''uploads/g/x.txt''"
  let ?g = "(ascii ''uploads/g'', Directory True)"
  have o: "\<not> closed (fileobj ?f)" by (simp add: upload_at_def)
  have dn: "dirname ?d = ascii ''uploads/g''"
    by (simp add: dirname_def rstrip_sep_def ascii_def Let_def)
  have mk: "os_makedirs table_os [] (dirname ?d) = ([?g], None)"
    unfolding dn by (simp add: table_os_def table_makedirs_def table_put_def ascii_def)
  have op: "os_open_wb table_os [?g] ?d = ([(?d, RegularFile []), ?g], None)"
    by (simp add: table_os_def table_open_wb_def table_put_def ascii_def)
  have wr: "os_write table_os [(?d, RegularFile []), ?g] ?d
              (drop (position (fileobj ?f)) (content (fileobj ?f))) =
            ([(?d, RegularFile [2, 3]), ?g], 2, None)"
    by (simp add: table_os_def table_write_def table_put_def upload_at_def ascii_def)
  have mk2: "os_makedirs table_os [(?d, Directory True)] (dirname ?d) =
      ([?g, (?d, Directory True)], None)"
    unfolding dn by (simp add: table_os_def table_makedirs_def table_put_def ascii_def)
  have op2: "os_open_wb table_os [?g, (?d, Directory True)] ?d =
      ([?g, (?d, Directory True)], Some OSError)"
    by (simp add: table_os_def table_open_wb_def ascii_def)
  from save_uploaded_file_result [where os = table_os and fs = "[]" and f = ?f
      and destination = ?d and fsa = "[?g]" and fsb = "[(?d, RegularFile []), ?g]"
      and fsc = "[(?d, RegularFile [2, 3]), ?g]" and n = 2]
  have a: "snd (snd (save_uploaded_file table_os [] ?f ?d)) = Inr True"
    and b: "position (fileobj (fst (snd (save_uploaded_file table_os [] ?f ?d)))) = 0"
    using o mk op wr by blast+
  from save_uploaded_file_result [where os = table_os and fs = "[(?d, Directory True)]"
      and f = ?f and destination = ?d and fsa = "[?g, (?d, Directory True)]"
      and fsb = "[?g, (?d, Directory True)]" and e = OSError]
  have c: "snd (snd (save_uploaded_file table_os [(?d, Directory True)] ?f ?d)) = Inr False"
    using o mk2 op2 by blast
  show ?thesis using a b c by blast
qed

text \<open>
  Claim C4. \<open>save_uploaded_file\<close> is to answer \<open>False\<close> on every I/O failure, raising
  nothing, and to leave the stream at position 0 on every run: its \<open>except Exception\<close>
  returns \<open>False\<close>, its docstring promises a truth value, and the comment of its
  \<open>finally\<close> clause promises the reset. The code misses this on a closed stream. The
  destination is opened, the read of the copy raises \<open>ValueError\<close> and the handler
  prepares \<open>False\<close>; then the \<open>seek\<close> of the \<open>finally\<close> clause, which no handler guards,
  raises \<open>ValueError\<close> as well. The caller gets that exception and not \<open>False\<close>, and the
  stream stays at position 1.
\<close>

theorem save_uploaded_file_closed_stream_raises:
  "save_uploaded_file table_os [] (upload_at [1, 2, 3] 1 True) (ascii ''uploads/g/x.txt'') =
     ([(ascii ''uploads/g/x.txt'', RegularFile []), (ascii ''uploads/g'', Directory True)],
      upload_at [1, 2, 3] 1 True, Inl ValueError)"
  by code_simp

end
